theory Spec2Isabelle
  imports Main "HOL-Library.Word" "HOL-Library.Multiset"
begin

section \<open>Dependency scanning tool: command lines, dependency records and include trees\<close>

text \<open>
  A shallow embedding of \<^verbatim>\<open>clang/lib/Tooling/DependencyScanning/DependencyScanningTool.cpp\<close>.
  Every C++ member function becomes a HOL function that takes the consumer's fields as an
  explicit state record and returns the updated one.  \<^verbatim>\<open>llvm::Expected<T>\<close> is a sum
  (\<open>Inl\<close> the error), and a failed \<^verbatim>\<open>assert\<close> is the outcome \<open>AssertionFailure\<close>:
  the model is the one of a build with assertions enabled.
\<close>

subsection \<open>Strings\<close>

text \<open>\<^verbatim>\<open>StringRef::startswith\<close> and \<^verbatim>\<open>StringRef::consume_front\<close>.\<close>

definition startswith :: "string \<Rightarrow> string \<Rightarrow> bool" where
  "startswith Arg Prefix = (take (length Prefix) Arg = Prefix)"

definition consume_front :: "string \<Rightarrow> string \<Rightarrow> string option" where
  "consume_front Arg Prefix =
     (if startswith Arg Prefix then Some (drop (length Prefix) Arg) else None)"

subsection \<open>makeTUCommandLineWithoutPaths\<close>

text \<open>The predicate handed to \<^verbatim>\<open>llvm::erase_if\<close>: arguments unused in explicit compiles.\<close>

definition unusedInExplicitCompile :: "string \<Rightarrow> bool" where
  "unusedInExplicitCompile Arg =
     (case consume_front Arg ''-fmodules-'' of
        Some Rest \<Rightarrow>
          startswith Rest ''cache-path='' \<or>
          startswith Rest ''prune-interval='' \<or>
          startswith Rest ''prune-after='' \<or>
          Rest = ''validate-once-per-build-session''
      | None \<Rightarrow> startswith Arg ''-fbuild-session-file='')"

definition makeTUCommandLineWithoutPaths :: "string list \<Rightarrow> string list" where
  "makeTUCommandLineWithoutPaths OriginalCommandLine =
     filter (\<lambda>Arg. \<not> unusedInExplicitCompile Arg)
       (OriginalCommandLine @ [''-fno-implicit-modules'', ''-fno-implicit-module-maps''])"

text \<open>
  The same set of flags in the words of the specification: the cache path, the two
  cache-pruning controls, the build-session validation switch and the build-session file.
\<close>

definition implicitModuleCachingFlag :: "string \<Rightarrow> bool" where
  "implicitModuleCachingFlag Arg =
     (startswith Arg ''-fmodules-cache-path='' \<or>
      startswith Arg ''-fmodules-prune-interval='' \<or>
      startswith Arg ''-fmodules-prune-after='' \<or>
      Arg = ''-fmodules-validate-once-per-build-session'' \<or>
      startswith Arg ''-fbuild-session-file='')"

subsection \<open>FullDependencyConsumer\<close>

record ModuleID =
  ModuleName :: string
  ContextHash :: string

record PrebuiltModuleDep =
  PMD_ModuleName :: string
  PCMFile :: string
  ModuleMapFile :: string

text \<open>
  Of \<^verbatim>\<open>ModuleDeps\<close> (declared in the module dependency collector) the consumer reads
  the identity and the flag \<^verbatim>\<open>ImportedByMainFile\<close>.
\<close>

record ModuleDeps =
  ID :: ModuleID
  ImportedByMainFile :: bool
  ClangModuleMapFile :: string

datatype ModuleOutputKind =
  ModuleFile | DependencyFile | DependencyTargets | DiagnosticSerializationFile

type_synonym CASID = string

text \<open>
  The fields of \<^verbatim>\<open>FullDependencyConsumer\<close>.  \<^verbatim>\<open>ClangModuleDeps\<close> is a map vector:
  the records in insertion order, each under the string key of its module identity.
  \<^verbatim>\<open>AlreadySeen\<close> is the caller's string set of such keys.
\<close>

record FullDependencyConsumer =
  Dependencies :: "string list"
  PrebuiltModuleDeps :: "PrebuiltModuleDep list"
  ClangModuleDeps :: "(string \<times> ModuleDeps) list"
  Consumer_ContextHash :: string
  AlreadySeen :: "string set"
  LookupModuleOutput :: "ModuleID \<Rightarrow> ModuleOutputKind \<Rightarrow> string"

record FullDependencies =
  FD_ContextHash :: string
  CommandLine :: "string list"
  FileDeps :: "string list"
  FD_ClangModuleDeps :: "ModuleID list"
  FD_PrebuiltModuleDeps :: "PrebuiltModuleDep list"
  CASFileSystemRootID :: "CASID option"

record FullDependenciesResult =
  FullDeps :: FullDependencies
  DiscoveredModules :: "ModuleDeps list"

text \<open>
  \<^verbatim>\<open>FullDependencyConsumer::getFullDependencies\<close>.  \<^verbatim>\<open>slice(1)\<close> of an empty
  command line is outside the array: the behaviour is undefined there, and the model has
  no result (\<open>None\<close>).
\<close>

definition getFullDependencies ::
  "FullDependencyConsumer \<Rightarrow> string list \<Rightarrow> CASID option \<Rightarrow> FullDependenciesResult option" where
  "getFullDependencies C OriginalCommandLine RootID =
     (case OriginalCommandLine of
        [] \<Rightarrow> None
      | Program # Sliced \<Rightarrow>
          (let ImportedMDs = filter ImportedByMainFile (map snd (ClangModuleDeps C));
               FD = \<lparr> FD_ContextHash = Consumer_ContextHash C,
                      CommandLine =
                        makeTUCommandLineWithoutPaths Sliced
                        @ map (\<lambda>PMD. ''-fmodule-file='' @ PCMFile PMD) (PrebuiltModuleDeps C)
                        @ map (\<lambda>MD. ''-fmodule-file='' @ LookupModuleOutput C (ID MD) ModuleFile)
                            ImportedMDs,
                      FileDeps = Dependencies C,
                      FD_ClangModuleDeps = map ID ImportedMDs,
                      FD_PrebuiltModuleDeps = PrebuiltModuleDeps C,
                      CASFileSystemRootID = RootID \<rparr>
           in Some \<lparr> FullDeps = FD,
                     DiscoveredModules =
                       map snd (filter (\<lambda>M. fst M \<notin> AlreadySeen C) (ClangModuleDeps C)) \<rparr>))"

subsection \<open>MakeDependencyPrinterConsumer\<close>

datatype 'a outcome = AssertionFailure | Done 'a

text \<open>
  The callbacks of \<^verbatim>\<open>DependencyConsumer\<close> as events.  The type \<open>'opts\<close> stands for
  \<^verbatim>\<open>DependencyOutputOptions\<close>.
\<close>

datatype 'opts DependencyEvent =
    DependencyOutputOpts 'opts
  | FileDependency string
  | PrebuiltModuleDependency PrebuiltModuleDep
  | ModuleDependency ModuleDeps
  | ContextHashEvent string

record 'opts MakeDependencyPrinterConsumer =
  Opts :: "'opts option"
  Printer_Dependencies :: "string list"

definition newPrinterConsumer :: "'opts MakeDependencyPrinterConsumer" where
  "newPrinterConsumer = \<lparr> Opts = None, Printer_Dependencies = [] \<rparr>"

fun handlePrinterEvent ::
  "'opts MakeDependencyPrinterConsumer \<Rightarrow> 'opts DependencyEvent \<Rightarrow> 'opts MakeDependencyPrinterConsumer" where
  "handlePrinterEvent C (DependencyOutputOpts NewOpts) = C\<lparr>Opts := Some NewOpts\<rparr>"
| "handlePrinterEvent C (FileDependency File) =
     C\<lparr>Printer_Dependencies := Printer_Dependencies C @ [File]\<rparr>"
| "handlePrinterEvent C (PrebuiltModuleDependency PMD) = C"
| "handlePrinterEvent C (ModuleDependency MD) = C"
| "handlePrinterEvent C (ContextHashEvent Hash) = C"

text \<open>
  \<^verbatim>\<open>printDependencies\<close>: the generator of the dependency file is the front end's
  (\<^verbatim>\<open>DependencyFileGenerator\<close>), a parameter here: it is built from the options, is
  given every dependency in order, and writes the text.
\<close>

definition printDependencies ::
  "('opts \<Rightarrow> string list \<Rightarrow> string) \<Rightarrow> 'opts MakeDependencyPrinterConsumer \<Rightarrow> string outcome" where
  "printDependencies outputDependencyFile C =
     (case Opts C of
        None \<Rightarrow> AssertionFailure
      | Some TheOpts \<Rightarrow> Done (outputDependencyFile TheOpts (Printer_Dependencies C)))"

text \<open>An event that the flat output may depend on: the options and the file dependencies.\<close>

fun flatEvent :: "'opts DependencyEvent \<Rightarrow> bool" where
  "flatEvent (DependencyOutputOpts NewOpts) = True"
| "flatEvent (FileDependency File) = True"
| "flatEvent _ = False"

fun handlePrinterEvents ::
  "'opts MakeDependencyPrinterConsumer \<Rightarrow> 'opts DependencyEvent list \<Rightarrow> 'opts MakeDependencyPrinterConsumer" where
  "handlePrinterEvents C [] = C"
| "handlePrinterEvents C (E # Es) = handlePrinterEvents (handlePrinterEvent C E) Es"

subsection \<open>The front end and the object store, as seen by IncludeTreePPConsumer\<close>

text \<open>
  The preprocessor, the source manager, the file manager and the object store are
  collaborators outside this file.  The consumer only calls them, so each call is a
  field of the environment record \<open>env\<close>: a function of its arguments, which may return an
  error (during one scan the same call gives the same answer: the store is addressed by
  content and the file system does not change).  The type \<open>'r\<close> is
  \<^verbatim>\<open>cas::ObjectRef\<close>.  The assertions are those of the file and those of the
  containers it uses: \<^verbatim>\<open>back()\<close> and \<^verbatim>\<open>pop_back_val()\<close> of an empty vector and
  the dereference of an empty optional fail the assertion of their class.
\<close>

type_synonym FileID = nat
type_synonym SourceLocation = nat

datatype CharacteristicKind =
  C_User | C_System | C_ExternCSystem | C_User_ModuleMap | C_System_ModuleMap

text \<open>
  \<^verbatim>\<open>llvm::Error\<close>: either made from a \<^verbatim>\<open>std::error_code\<close> of the file manager
  or raised by the object store.
\<close>

datatype Error = errorCodeToError nat | StoreError string

text \<open>
  \<^verbatim>\<open>FileEntry\<close>, by its accessors.  The file manager gives every file entry its own
  \<^verbatim>\<open>getUID\<close>, a small index, so that a file entry stands for its address.
  \<^verbatim>\<open>tryGetRealPathName\<close> is empty when no real path is recorded.
\<close>

record FileEntry =
  getUID :: nat
  getName :: string
  getSize :: int
  tryGetRealPathName :: string

text \<open>
  \<^verbatim>\<open>SrcMgr::FileInfo\<close>: \<open>OrigEntry\<close> and \<open>getBufferIfLoaded\<close> are those of its content
  cache (a null pointer and an empty optional are \<open>None\<close>).
\<close>

record FileInfo =
  getFileCharacteristic :: CharacteristicKind
  FI_getName :: string
  OrigEntry :: "FileEntry option"
  getBufferIfLoaded :: "string option"

record 'r env =
  getSLocEntry_getFile :: "FileID \<Rightarrow> FileInfo"
  getPredefinesFileID :: FileID
  getDecomposedExpansionLoc :: "SourceLocation \<Rightarrow> FileID \<times> 32 word"
  getFile :: "string \<Rightarrow> nat + FileEntry"
  getObjectRefForFileContent :: "string \<Rightarrow> nat + 'r option"
  makeAbsolutePath :: "string \<Rightarrow> string"
  remove_dots :: "string \<Rightarrow> string"
  path_append :: "string \<Rightarrow> string \<Rightarrow> string"
  storeFromString :: "string \<Rightarrow> Error + 'r"
  IncludeFile_create :: "string \<Rightarrow> 'r \<Rightarrow> Error + 'r"
  IncludeTree_create ::
    "CharacteristicKind \<Rightarrow> 'r \<Rightarrow> ('r \<times> 32 word) list \<Rightarrow> bool list \<Rightarrow> Error + 'r"
  IncludeFileList_create :: "('r \<times> 32 word) list \<Rightarrow> Error + 'r"
  IncludeTreeRoot_create :: "'r \<Rightarrow> 'r \<Rightarrow> 'r option \<Rightarrow> Error + 'r"

text \<open>What \<^verbatim>\<open>finalize\<close> reads of the \<^verbatim>\<open>CompilerInstance\<close>.\<close>

record CompilerInstance =
  NoSanitizeFiles :: "string list"
  Sysroot :: string
  ImplicitPCHInclude :: string
  getIncludedFiles :: "FileEntry list"

subsection \<open>IncludeTreePPConsumer: state\<close>

record 'r FilePPState =
  FileCharacteristic :: CharacteristicKind
  File :: 'r
  Includes :: "('r \<times> 32 word) list"
  HasIncludeChecks :: "bool list"

text \<open>
  The vectors grow at the end: the top of \<open>IncludeStack\<close> is its last element.
  \<open>SeenIncludeFiles\<close> is the bit vector, \<open>ObjectForFile\<close> the dense map (an absent key
  and a key bound to an empty optional read the same).
\<close>

record 'r IncludeTreePPConsumer =
  PCHRef :: "'r option"
  SeenIncludeFiles :: "bool list"
  IncludedFiles :: "('r \<times> 32 word) list"
  PredefinesBufferRef :: "'r option"
  IncludeStack :: "'r FilePPState list"
  ObjectForFile :: "FileEntry \<Rightarrow> 'r option"
  ErrorToReport :: "Error option"

definition newConsumer :: "'r IncludeTreePPConsumer" where
  "newConsumer =
     \<lparr> PCHRef = None, SeenIncludeFiles = [], IncludedFiles = [], PredefinesBufferRef = None,
       IncludeStack = [], ObjectForFile = (\<lambda>FE. None), ErrorToReport = None \<rparr>"

definition hasErrorOccurred :: "'r IncludeTreePPConsumer \<Rightarrow> bool" where
  "hasErrorOccurred S = (ErrorToReport S \<noteq> None)"

subsection \<open>IncludeTreePPConsumer: resolving files\<close>

text \<open>
  The lambda \<^verbatim>\<open>addFile\<close> of \<^verbatim>\<open>addToFileList\<close>.  The size is cast to the 32-bit
  \<^verbatim>\<open>FileSizeTy\<close> of the file list.
\<close>

definition addToFileList_addFile ::
  "'r env \<Rightarrow> FileEntry \<Rightarrow> 'r \<Rightarrow> 'r IncludeTreePPConsumer \<Rightarrow> string
     \<Rightarrow> ('r IncludeTreePPConsumer \<times> (Error + 'r)) outcome" where
  "addToFileList_addFile env FE Contents S Filename =
     (if Filename = [] then AssertionFailure
      else case IncludeFile_create env Filename Contents of
             Inl E \<Rightarrow> Done (S, Inl E)
           | Inr FileNode \<Rightarrow>
               Done (S\<lparr>IncludedFiles := IncludedFiles S @ [(FileNode, word_of_int (getSize FE))]\<rparr>,
                     Inr FileNode))"

definition addToFileList ::
  "'r env \<Rightarrow> 'r IncludeTreePPConsumer \<Rightarrow> FileEntry
     \<Rightarrow> ('r IncludeTreePPConsumer \<times> (Error + 'r)) outcome" where
  "addToFileList env S FE =
     (let Filename = getName FE in
      case getObjectRefForFileContent env Filename of
        Inl EC \<Rightarrow> Done (S, Inl (errorCodeToError EC))
      | Inr None \<Rightarrow> AssertionFailure
      | Inr (Some Contents) \<Rightarrow>
          (let OtherPath = tryGetRealPathName FE in
           if OtherPath \<noteq> [] \<and> OtherPath \<noteq> remove_dots env (makeAbsolutePath env Filename)
           then (case addToFileList_addFile env FE Contents S OtherPath of
                   AssertionFailure \<Rightarrow> AssertionFailure
                 | Done (S1, Inl E) \<Rightarrow> Done (S1, Inl E)
                 | Done (S1, Inr FileNode) \<Rightarrow> addToFileList_addFile env FE Contents S1 Filename)
           else addToFileList_addFile env FE Contents S Filename))"

definition getObjectForBuffer :: "'r env \<Rightarrow> FileInfo \<Rightarrow> (Error + 'r) outcome" where
  "getObjectForBuffer env FI =
     (case getBufferIfLoaded FI of
        None \<Rightarrow> AssertionFailure
      | Some Buffer \<Rightarrow>
          (case storeFromString env Buffer of
             Inl E \<Rightarrow> Done (Inl E)
           | Inr Ref \<Rightarrow> Done (IncludeFile_create env (FI_getName FI) Ref)))"

text \<open>\<^verbatim>\<open>BitVector::resize\<close> followed by \<^verbatim>\<open>BitVector::set\<close>.\<close>

definition markSeen :: "bool list \<Rightarrow> nat \<Rightarrow> bool list" where
  "markSeen Seen U =
     (if U \<ge> length Seen then Seen @ replicate (U + 1 - length Seen) False else Seen)
       [U := True]"

definition getObjectForFileNonCached ::
  "'r env \<Rightarrow> 'r IncludeTreePPConsumer \<Rightarrow> FileInfo
     \<Rightarrow> ('r IncludeTreePPConsumer \<times> (Error + 'r)) outcome" where
  "getObjectForFileNonCached env S FI =
     (case OrigEntry FI of
        None \<Rightarrow> AssertionFailure
      | Some FE \<Rightarrow>
          addToFileList env (S\<lparr>SeenIncludeFiles := markSeen (SeenIncludeFiles S) (getUID FE)\<rparr>) FE)"

definition getObjectForFile ::
  "'r env \<Rightarrow> 'r IncludeTreePPConsumer \<Rightarrow> FileID
     \<Rightarrow> ('r IncludeTreePPConsumer \<times> (Error + 'r)) outcome" where
  "getObjectForFile env S FID =
     (let FI = getSLocEntry_getFile env FID in
      if getPredefinesFileID env = FID then
        (case PredefinesBufferRef S of
           Some Ref \<Rightarrow> Done (S, Inr Ref)
         | None \<Rightarrow>
             (case getObjectForBuffer env FI of
                AssertionFailure \<Rightarrow> AssertionFailure
              | Done (Inl E) \<Rightarrow> Done (S, Inl E)
              | Done (Inr Ref) \<Rightarrow> Done (S\<lparr>PredefinesBufferRef := Some Ref\<rparr>, Inr Ref)))
      else
        (case OrigEntry FI of
           None \<Rightarrow> AssertionFailure
         | Some FE \<Rightarrow>
             (case ObjectForFile S FE of
                Some Ref \<Rightarrow> Done (S, Inr Ref)
              | None \<Rightarrow>
                  (case getObjectForFileNonCached env S FI of
                     AssertionFailure \<Rightarrow> AssertionFailure
                   | Done (S1, Inl E) \<Rightarrow> Done (S1, Inl E)
                   | Done (S1, Inr Ref) \<Rightarrow>
                       Done (S1\<lparr>ObjectForFile := (ObjectForFile S1)(FE \<mapsto> Ref)\<rparr>, Inr Ref)))))"

definition getCASTreeForFileIncludes :: "'r env \<Rightarrow> 'r FilePPState \<Rightarrow> Error + 'r" where
  "getCASTreeForFileIncludes env PPState =
     IncludeTree_create env (FileCharacteristic PPState) (File PPState) (Includes PPState)
       (HasIncludeChecks PPState)"

subsection \<open>IncludeTreePPConsumer: the preprocessor's events\<close>

definition enteredInclude ::
  "'r env \<Rightarrow> 'r IncludeTreePPConsumer \<Rightarrow> FileID \<Rightarrow> 'r IncludeTreePPConsumer outcome" where
  "enteredInclude env S FID =
     (if hasErrorOccurred S then Done S
      else case getObjectForFile env S FID of
             AssertionFailure \<Rightarrow> AssertionFailure
           | Done (S1, Inl E) \<Rightarrow> Done (S1\<lparr>ErrorToReport := Some E\<rparr>)
           | Done (S1, Inr FileRef) \<Rightarrow>
               Done (S1\<lparr>IncludeStack := IncludeStack S1 @
                  [\<lparr> FileCharacteristic = getFileCharacteristic (getSLocEntry_getFile env FID),
                     File = FileRef, Includes = [], HasIncludeChecks = [] \<rparr>]\<rparr>))"

text \<open>
  One of the two assertions of \<^verbatim>\<open>exitedInclude\<close>:
  \<^verbatim>\<open>assert(*check(getObjectForFile(PP, FID)) == IncludeStack.back().File)\<close>.
  A failed resolution is recorded by \<^verbatim>\<open>check\<close> and leaves an empty optional, whose
  dereference fails its own assertion, as does \<^verbatim>\<open>back()\<close> of an empty vector.
\<close>

definition assertTopIs ::
  "'r env \<Rightarrow> 'r IncludeTreePPConsumer \<Rightarrow> FileID \<Rightarrow> 'r IncludeTreePPConsumer outcome" where
  "assertTopIs env S FID =
     (case getObjectForFile env S FID of
        AssertionFailure \<Rightarrow> AssertionFailure
      | Done (S1, Inl E) \<Rightarrow> AssertionFailure
      | Done (S1, Inr Ref) \<Rightarrow>
          (if IncludeStack S1 = [] then AssertionFailure
           else if Ref = File (last (IncludeStack S1)) then Done S1
           else AssertionFailure))"

definition exitedInclude ::
  "'r env \<Rightarrow> 'r IncludeTreePPConsumer \<Rightarrow> FileID \<Rightarrow> FileID \<Rightarrow> SourceLocation
     \<Rightarrow> 'r IncludeTreePPConsumer outcome" where
  "exitedInclude env S IncludedBy Include ExitLoc =
     (if hasErrorOccurred S then Done S
      else case assertTopIs env S Include of
             AssertionFailure \<Rightarrow> AssertionFailure
           | Done S1 \<Rightarrow>
               (let S2 = S1\<lparr>IncludeStack := butlast (IncludeStack S1)\<rparr> in
                case getCASTreeForFileIncludes env (last (IncludeStack S1)) of
                  Inl E \<Rightarrow> Done (S2\<lparr>ErrorToReport := Some E\<rparr>)
                | Inr IncludeTree \<Rightarrow>
                    (case assertTopIs env S2 IncludedBy of
                       AssertionFailure \<Rightarrow> AssertionFailure
                     | Done S3 \<Rightarrow>
                         Done (S3\<lparr>IncludeStack := butlast (IncludeStack S3) @
                            [(last (IncludeStack S3))
                               \<lparr>Includes := Includes (last (IncludeStack S3)) @
                                  [(IncludeTree, snd (getDecomposedExpansionLoc env ExitLoc))]\<rparr>]\<rparr>))))"

text \<open>With no open frame, \<^verbatim>\<open>IncludeStack.back()\<close> fails the assertion of the vector.\<close>

definition handleHasIncludeCheck ::
  "'r IncludeTreePPConsumer \<Rightarrow> bool \<Rightarrow> 'r IncludeTreePPConsumer outcome" where
  "handleHasIncludeCheck S Result =
     (if hasErrorOccurred S then Done S
      else if IncludeStack S = [] then AssertionFailure
      else Done (S\<lparr>IncludeStack := butlast (IncludeStack S) @
              [(last (IncludeStack S))
                 \<lparr>HasIncludeChecks := HasIncludeChecks (last (IncludeStack S)) @ [Result]\<rparr>]\<rparr>))"

text \<open>The driver calls the consumer once per event, in order; a failed assertion ends the run.\<close>

datatype PPEvent =
    Entered FileID
  | Exited FileID FileID SourceLocation
  | HasIncludeCheck bool

fun handleEvent ::
  "'r env \<Rightarrow> 'r IncludeTreePPConsumer \<Rightarrow> PPEvent \<Rightarrow> 'r IncludeTreePPConsumer outcome" where
  "handleEvent env S (Entered FID) = enteredInclude env S FID"
| "handleEvent env S (Exited IncludedBy Include ExitLoc) =
     exitedInclude env S IncludedBy Include ExitLoc"
| "handleEvent env S (HasIncludeCheck Result) = handleHasIncludeCheck S Result"

fun handleEvents ::
  "'r env \<Rightarrow> 'r IncludeTreePPConsumer \<Rightarrow> PPEvent list \<Rightarrow> 'r IncludeTreePPConsumer outcome" where
  "handleEvents env S [] = Done S"
| "handleEvents env S (E # Es) =
     (case handleEvent env S E of
        AssertionFailure \<Rightarrow> AssertionFailure
      | Done S1 \<Rightarrow> handleEvents env S1 Es)"

subsection \<open>IncludeTreePPConsumer: finalize and getIncludeTree\<close>

text \<open>
  An assignment \<^verbatim>\<open>ErrorToReport = ...\<close> in \<^verbatim>\<open>finalize\<close>, which does not test
  \<^verbatim>\<open>hasErrorOccurred()\<close> first.  The recorded error has not been read, and
  \<^verbatim>\<open>llvm::Error\<close> refuses to be overwritten unread: with an error recorded, the
  assignment fails that assertion.
\<close>

definition assignErrorToReport ::
  "'r IncludeTreePPConsumer \<Rightarrow> Error \<Rightarrow> 'r IncludeTreePPConsumer outcome" where
  "assignErrorToReport S E =
     (if hasErrorOccurred S then AssertionFailure else Done (S\<lparr>ErrorToReport := Some E\<rparr>))"

text \<open>
  The lambda \<^verbatim>\<open>addFile\<close> of \<^verbatim>\<open>finalize\<close>; the boolean is its return value.
\<close>

definition finalize_addFile ::
  "'r env \<Rightarrow> 'r IncludeTreePPConsumer \<Rightarrow> string \<Rightarrow> bool
     \<Rightarrow> ('r IncludeTreePPConsumer \<times> bool) outcome" where
  "finalize_addFile env S FilePath IgnoreFileError =
     (case getFile env FilePath of
        Inl EC \<Rightarrow>
          (if IgnoreFileError then Done (S, True)
           else case assignErrorToReport S (errorCodeToError EC) of
                  AssertionFailure \<Rightarrow> AssertionFailure
                | Done S1 \<Rightarrow> Done (S1, False))
      | Inr FE \<Rightarrow>
          (case addToFileList env S FE of
             AssertionFailure \<Rightarrow> AssertionFailure
           | Done (S1, Inl E) \<Rightarrow>
               (case assignErrorToReport S1 E of
                  AssertionFailure \<Rightarrow> AssertionFailure
                | Done S2 \<Rightarrow> Done (S2, False))
           | Done (S1, Inr Ref) \<Rightarrow> Done (S1, True)))"

text \<open>The loop over \<^verbatim>\<open>NoSanitizeFiles\<close>; \<open>False\<close> is the early return.\<close>

fun addNoSanitizeFiles ::
  "'r env \<Rightarrow> 'r IncludeTreePPConsumer \<Rightarrow> string list \<Rightarrow> ('r IncludeTreePPConsumer \<times> bool) outcome" where
  "addNoSanitizeFiles env S [] = Done (S, True)"
| "addNoSanitizeFiles env S (FilePath # Rest) =
     (case finalize_addFile env S FilePath False of
        AssertionFailure \<Rightarrow> AssertionFailure
      | Done (S1, Ok) \<Rightarrow> if Ok then addNoSanitizeFiles env S1 Rest else Done (S1, False))"

text \<open>The optional \<^verbatim>\<open>SDKSettings.json\<close> of the sysroot; the lambda's result is dropped.\<close>

definition addSDKSettings ::
  "'r env \<Rightarrow> 'r IncludeTreePPConsumer \<Rightarrow> string \<Rightarrow> 'r IncludeTreePPConsumer outcome" where
  "addSDKSettings env S Root =
     (if Root = [] then Done S
      else case finalize_addFile env S (path_append env Root ''SDKSettings.json'') True of
             AssertionFailure \<Rightarrow> AssertionFailure
           | Done (S1, Ok) \<Rightarrow> Done S1)"

text \<open>The included files whose bit in \<open>SeenIncludeFiles\<close> is not set.\<close>

definition notSeen :: "bool list \<Rightarrow> FileEntry \<Rightarrow> bool" where
  "notSeen Seen FE = (getUID FE \<ge> length Seen \<or> \<not> Seen ! getUID FE)"

text \<open>
  The sort by \<^verbatim>\<open>getUID\<close>.  \<^verbatim>\<open>llvm::sort\<close> is not stable; the file entries of the
  set of included files are distinct, and so are their identifiers, which leaves one sorted
  order.
\<close>

definition sortNotSeenIncludes :: "bool list \<Rightarrow> FileEntry list \<Rightarrow> FileEntry list" where
  "sortNotSeenIncludes Seen Included = sort_key getUID (filter (notSeen Seen) Included)"

text \<open>The loop over the sorted \<^verbatim>\<open>NotSeenIncludes\<close>; \<open>False\<close> is the early return.\<close>

fun addNotSeenIncludes ::
  "'r env \<Rightarrow> 'r IncludeTreePPConsumer \<Rightarrow> FileEntry list \<Rightarrow> ('r IncludeTreePPConsumer \<times> bool) outcome" where
  "addNotSeenIncludes env S [] = Done (S, True)"
| "addNotSeenIncludes env S (FE # Rest) =
     (case addToFileList env S FE of
        AssertionFailure \<Rightarrow> AssertionFailure
      | Done (S1, Inl E) \<Rightarrow>
          (case assignErrorToReport S1 E of
             AssertionFailure \<Rightarrow> AssertionFailure
           | Done S2 \<Rightarrow> Done (S2, False))
      | Done (S1, Inr FileNode) \<Rightarrow> addNotSeenIncludes env S1 Rest)"

text \<open>
  The part of \<^verbatim>\<open>finalize\<close> after the test of \<^verbatim>\<open>ImplicitPCHInclude\<close>.  The
  bit vector does not change in it, so the files not seen are those of its start.
\<close>

definition finalizePCH ::
  "'r env \<Rightarrow> CompilerInstance \<Rightarrow> 'r IncludeTreePPConsumer \<Rightarrow> 'r IncludeTreePPConsumer outcome" where
  "finalizePCH env CI S =
     (case addNotSeenIncludes env S (sortNotSeenIncludes (SeenIncludeFiles S) (getIncludedFiles CI)) of
        AssertionFailure \<Rightarrow> AssertionFailure
      | Done (S1, Ok) \<Rightarrow>
          (if \<not> Ok then Done S1
           else case getObjectRefForFileContent env (ImplicitPCHInclude CI) of
                  Inl EC \<Rightarrow> assignErrorToReport S1 (errorCodeToError EC)
                | Inr None \<Rightarrow> AssertionFailure
                | Inr (Some Ref) \<Rightarrow> Done (S1\<lparr>PCHRef := Some Ref\<rparr>)))"

definition finalize ::
  "'r env \<Rightarrow> CompilerInstance \<Rightarrow> 'r IncludeTreePPConsumer \<Rightarrow> 'r IncludeTreePPConsumer outcome" where
  "finalize env CI S =
     (case addNoSanitizeFiles env S (NoSanitizeFiles CI) of
        AssertionFailure \<Rightarrow> AssertionFailure
      | Done (S1, Ok) \<Rightarrow>
          (if \<not> Ok then Done S1
           else case addSDKSettings env S1 (Sysroot CI) of
                  AssertionFailure \<Rightarrow> AssertionFailure
                | Done S2 \<Rightarrow>
                    (if ImplicitPCHInclude CI = [] then Done S2 else finalizePCH env CI S2)))"

definition getIncludeTree ::
  "'r env \<Rightarrow> 'r IncludeTreePPConsumer \<Rightarrow> ('r IncludeTreePPConsumer \<times> (Error + 'r)) outcome" where
  "getIncludeTree env S =
     (case ErrorToReport S of
        Some E \<Rightarrow> Done (S, Inl E)
      | None \<Rightarrow>
          (if length (IncludeStack S) \<noteq> 1 then AssertionFailure
           else
             (let S1 = S\<lparr>IncludeStack := butlast (IncludeStack S)\<rparr> in
              case getCASTreeForFileIncludes env (last (IncludeStack S)) of
                Inl E \<Rightarrow> Done (S1, Inl E)
              | Inr MainIncludeTree \<Rightarrow>
                  (case IncludeFileList_create env (IncludedFiles S1) of
                     Inl E \<Rightarrow> Done (S1, Inl E)
                   | Inr FileList \<Rightarrow>
                       Done (S1, IncludeTreeRoot_create env MainIncludeTree FileList (PCHRef S1))))))"

subsection \<open>Balanced event sequences and the nodes they describe\<close>

text \<open>
  What happens while one file is open: a \<^verbatim>\<open>__has_include\<close> probe, or an inclusion
  (the file entered, what happens inside it, the location of the exit), then the rest.
\<close>

datatype Inclusions =
    NoMore
  | Probe bool Inclusions
  | Inclusion FileID Inclusions SourceLocation Inclusions

text \<open>The events the preprocessor sends for them while the file \<open>Parent\<close> is open.\<close>

fun eventsOf :: "FileID \<Rightarrow> Inclusions \<Rightarrow> PPEvent list" where
  "eventsOf Parent NoMore = []"
| "eventsOf Parent (Probe Result Rest) = HasIncludeCheck Result # eventsOf Parent Rest"
| "eventsOf Parent (Inclusion FID Inner ExitLoc Rest) =
     Entered FID # eventsOf FID Inner @ Exited Parent FID ExitLoc # eventsOf Parent Rest"

text \<open>The probes made while the file itself is the active one, in order.\<close>

fun probesOf :: "Inclusions \<Rightarrow> bool list" where
  "probesOf NoMore = []"
| "probesOf (Probe Result Rest) = Result # probesOf Rest"
| "probesOf (Inclusion FID Inner ExitLoc Rest) = probesOf Rest"

text \<open>
  The file node of a file on disk: the node made of its name and of the reference the file
  manager has for its content.
\<close>

definition diskFileNode :: "'r env \<Rightarrow> FileEntry \<Rightarrow> 'r option" where
  "diskFileNode env FE =
     (case getObjectRefForFileContent env (getName FE) of
        Inr (Some Contents) \<Rightarrow>
          (case IncludeFile_create env (getName FE) Contents of
             Inr FileNode \<Rightarrow> Some FileNode
           | Inl E \<Rightarrow> None)
      | _ \<Rightarrow> None)"

text \<open>The file node of the predefines buffer.\<close>

definition bufferFileNode :: "'r env \<Rightarrow> FileInfo \<Rightarrow> 'r option" where
  "bufferFileNode env FI =
     (case getObjectForBuffer env FI of Done (Inr FileNode) \<Rightarrow> Some FileNode | _ \<Rightarrow> None)"

definition fileNodeOf :: "'r env \<Rightarrow> FileID \<Rightarrow> 'r option" where
  "fileNodeOf env FID =
     (if getPredefinesFileID env = FID then bufferFileNode env (getSLocEntry_getFile env FID)
      else case OrigEntry (getSLocEntry_getFile env FID) of
             None \<Rightarrow> None
           | Some FE \<Rightarrow> diskFileNode env FE)"

text \<open>
  The include-tree node of a file, given the children and the probes of the file: the
  object the store creates from the file's characteristic, its file node, the children
  and the probes.
\<close>

definition treeNode :: "'r env \<Rightarrow> FileID \<Rightarrow> ('r \<times> 32 word) list \<Rightarrow> bool list \<Rightarrow> 'r option" where
  "treeNode env FID Children Probes =
     (case fileNodeOf env FID of
        None \<Rightarrow> None
      | Some FileNode \<Rightarrow>
          (case IncludeTree_create env (getFileCharacteristic (getSLocEntry_getFile env FID))
                  FileNode Children Probes of
             Inr Tree \<Rightarrow> Some Tree
           | Inl E \<Rightarrow> None))"

text \<open>
  The children of a file: for every inclusion, in order, the node of the included file
  (with its own children and probes) and the offset of the exit location.
\<close>

fun childrenOf :: "'r env \<Rightarrow> Inclusions \<Rightarrow> ('r \<times> 32 word) list option" where
  "childrenOf env NoMore = Some []"
| "childrenOf env (Probe Result Rest) = childrenOf env Rest"
| "childrenOf env (Inclusion FID Inner ExitLoc Rest) =
     (case childrenOf env Inner of
        None \<Rightarrow> None
      | Some InnerChildren \<Rightarrow>
          (case treeNode env FID InnerChildren (probesOf Inner) of
             None \<Rightarrow> None
           | Some Tree \<Rightarrow>
               (case childrenOf env Rest of
                  None \<Rightarrow> None
                | Some Others \<Rightarrow>
                    Some ((Tree, snd (getDecomposedExpansionLoc env ExitLoc)) # Others))))"

text \<open>
  The entries of the file list for one file entry: the node of the real path when it is
  recorded and differs from the absolute path without dots, then the node of the name,
  both made from the one reference to the content and both with the size of the file.
\<close>

definition hasOtherPath :: "'r env \<Rightarrow> FileEntry \<Rightarrow> bool" where
  "hasOtherPath env FE =
     (tryGetRealPathName FE \<noteq> [] \<and>
      tryGetRealPathName FE \<noteq> remove_dots env (makeAbsolutePath env (getName FE)))"

definition fileListEntries :: "'r env \<Rightarrow> FileEntry \<Rightarrow> ('r \<times> 32 word) list" where
  "fileListEntries env FE =
     (case getObjectRefForFileContent env (getName FE) of
        Inr (Some Contents) \<Rightarrow>
          concat (map (\<lambda>Path. (case IncludeFile_create env Path Contents of
                                  Inr FileNode \<Rightarrow> [(FileNode, word_of_int (getSize FE))]
                                | Inl E \<Rightarrow> []))
            ((if hasOtherPath env FE then [tryGetRealPathName FE] else []) @ [getName FE]))
      | _ \<Rightarrow> [])"

text \<open>
  The caches agree with the front end and the store: a cached reference is the file node
  of its file.
\<close>

definition coherent :: "'r env \<Rightarrow> 'r IncludeTreePPConsumer \<Rightarrow> bool" where
  "coherent env S =
     ((\<forall>FE Ref. ObjectForFile S FE = Some Ref \<longrightarrow> diskFileNode env FE = Some Ref) \<and>
      (\<forall>Ref. PredefinesBufferRef S = Some Ref \<longrightarrow>
         bufferFileNode env (getSLocEntry_getFile env (getPredefinesFileID env)) = Some Ref))"

text \<open>
  An entry of the file list that comes from a file entry: a node of one of the two paths
  of the entry and of the reference to its content, with its size.
\<close>

definition entryOfFile :: "'r env \<Rightarrow> FileEntry \<Rightarrow> ('r \<times> 32 word) \<Rightarrow> bool" where
  "entryOfFile env FE Entry =
     (case getObjectRefForFileContent env (getName FE) of
        Inr (Some Contents) \<Rightarrow>
          (IncludeFile_create env (getName FE) Contents = Inr (fst Entry) \<or>
           IncludeFile_create env (tryGetRealPathName FE) Contents = Inr (fst Entry)) \<and>
          snd Entry = word_of_int (getSize FE)
      | _ \<Rightarrow> False)"

text \<open>
  The step from \<open>S\<close> to \<open>S1\<close> only appends entries of files to the file list (it may also
  record an error when none is recorded, and set the reference to the precompiled header).
\<close>

definition extendsFileList ::
  "'r env \<Rightarrow> 'r IncludeTreePPConsumer \<Rightarrow> 'r IncludeTreePPConsumer \<Rightarrow> bool" where
  "extendsFileList env S S1 =
     (IncludeStack S1 = IncludeStack S \<and> SeenIncludeFiles S1 = SeenIncludeFiles S \<and>
      ObjectForFile S1 = ObjectForFile S \<and> PredefinesBufferRef S1 = PredefinesBufferRef S \<and>
      (\<forall>E. ErrorToReport S = Some E \<longrightarrow> ErrorToReport S1 = Some E) \<and>
      (\<exists>New. IncludedFiles S1 = IncludedFiles S @ New \<and>
             (\<forall>Entry \<in> set New. \<exists>FE. entryOfFile env FE Entry)))"

text \<open>Every entry of the file list is the entry of a file entry.\<close>

definition fileListFromDisk :: "'r env \<Rightarrow> 'r IncludeTreePPConsumer \<Rightarrow> bool" where
  "fileListFromDisk env S = (\<forall>Entry \<in> set (IncludedFiles S). \<exists>FE. entryOfFile env FE Entry)"

text \<open>
  What every event keeps: the cached references, and that the file list holds entries of
  file entries only.
\<close>

definition keeps ::
  "'r env \<Rightarrow> 'r IncludeTreePPConsumer \<Rightarrow> 'r IncludeTreePPConsumer \<Rightarrow> bool" where
  "keeps env S S1 =
     ((\<forall>FE Ref. ObjectForFile S FE = Some Ref \<longrightarrow> ObjectForFile S1 FE = Some Ref) \<and>
      (\<forall>Ref. PredefinesBufferRef S = Some Ref \<longrightarrow> PredefinesBufferRef S1 = Some Ref) \<and>
      (fileListFromDisk env S \<longrightarrow> fileListFromDisk env S1))"

text \<open>
  Unless an error is recorded, a bit of \<open>SeenIncludeFiles\<close> is set only for the
  identifier of a file entry that has been resolved (and is cached).
\<close>

definition seenAreResolved :: "'r IncludeTreePPConsumer \<Rightarrow> bool" where
  "seenAreResolved S =
     (ErrorToReport S \<noteq> None \<or>
      (\<forall>U < length (SeenIncludeFiles S).
         SeenIncludeFiles S ! U \<longrightarrow> (\<exists>FE. getUID FE = U \<and> ObjectForFile S FE \<noteq> None)))"


subsection \<open>DependencyScanningTool::getIncludeTree\<close>

text \<open>
  The worker drives the preprocessor, which sends the events and then \<^verbatim>\<open>finalize\<close>
  to the consumer; \<open>WorkerResult\<close> is the error the worker returns, if any.  On that
  return the consumer is destroyed, and the destruction of an error that is recorded and
  has not been read fails the assertion of \<^verbatim>\<open>llvm::Error\<close>.
\<close>

definition Tool_getIncludeTree ::
  "'r env \<Rightarrow> PPEvent list \<Rightarrow> CompilerInstance \<Rightarrow> Error option \<Rightarrow> (Error + 'r) outcome" where
  "Tool_getIncludeTree env Es CI WorkerResult =
     (case handleEvents env newConsumer Es of
        AssertionFailure \<Rightarrow> AssertionFailure
      | Done S \<Rightarrow>
          (case finalize env CI S of
             AssertionFailure \<Rightarrow> AssertionFailure
           | Done S1 \<Rightarrow>
               (case WorkerResult of
                  Some E \<Rightarrow> if hasErrorOccurred S1 then AssertionFailure else Done (Inl E)
                | None \<Rightarrow>
                    (case getIncludeTree env S1 of
                       AssertionFailure \<Rightarrow> AssertionFailure
                     | Done (S2, Result) \<Rightarrow> Done Result))))"

text \<open>The consumer after the events \<open>Es\<close> (a new consumer if an assertion failed).\<close>

definition consumerAfter :: "'r env \<Rightarrow> PPEvent list \<Rightarrow> 'r IncludeTreePPConsumer" where
  "consumerAfter env Es =
     (case handleEvents env newConsumer Es of AssertionFailure \<Rightarrow> newConsumer | Done S \<Rightarrow> S)"

subsection \<open>An object store of terms and a small translation unit\<close>

text \<open>
  A store in which a reference is the object itself, so that equal content has equal
  references and the fields of a node can be read.
\<close>

datatype CASObject =
    Blob string
  | IncludeFileNode string CASObject
  | IncludeTreeNode CharacteristicKind CASObject "(CASObject \<times> 32 word) list" "bool list"
  | IncludeFileListNode "(CASObject \<times> 32 word) list"
  | IncludeTreeRootNode CASObject CASObject "CASObject option"

definition mainFE :: FileEntry where
  "mainFE = \<lparr> getUID = 0, getName = ''main.c'', getSize = 300, tryGetRealPathName = [] \<rparr>"

text \<open>\<^verbatim>\<open>a.h\<close> is a symbolic link: its real path is not its absolute path.\<close>

definition aFE :: FileEntry where
  "aFE = \<lparr> getUID = 1, getName = ''a.h'', getSize = 100, tryGetRealPathName = ''/real/a.h'' \<rparr>"

definition bFE :: FileEntry where
  "bFE = \<lparr> getUID = 2, getName = ''b.h'', getSize = 50, tryGetRealPathName = ''/src/b.h'' \<rparr>"

text \<open>The content of \<^verbatim>\<open>gone.h\<close> cannot be read.\<close>

definition goneFE :: FileEntry where
  "goneFE = \<lparr> getUID = 3, getName = ''gone.h'', getSize = 7, tryGetRealPathName = [] \<rparr>"

text \<open>Two files that only the precompiled header includes.\<close>

definition pFE :: FileEntry where
  "pFE = \<lparr> getUID = 5, getName = ''p.h'', getSize = 11, tryGetRealPathName = [] \<rparr>"

definition qFE :: FileEntry where
  "qFE = \<lparr> getUID = 4, getName = ''q.h'', getSize = 12, tryGetRealPathName = [] \<rparr>"

text \<open>
  File 0 is the predefines buffer, 1 the main file, 2 and 5 two inclusions of
  \<^verbatim>\<open>a.h\<close>, 3 \<^verbatim>\<open>b.h\<close>, 4 \<^verbatim>\<open>gone.h\<close>.
\<close>

definition exampleFileInfo :: "FileID \<Rightarrow> FileInfo" where
  "exampleFileInfo FID =
     (if FID = 0 then
        \<lparr> getFileCharacteristic = C_User, FI_getName = ''<built-in>'', OrigEntry = None,
          getBufferIfLoaded = Some ''#define __STDC__ 1'' \<rparr>
      else if FID = 1 then
        \<lparr> getFileCharacteristic = C_User, FI_getName = ''main.c'', OrigEntry = Some mainFE,
          getBufferIfLoaded = None \<rparr>
      else if FID = 2 \<or> FID = 5 then
        \<lparr> getFileCharacteristic = C_System, FI_getName = ''a.h'', OrigEntry = Some aFE,
          getBufferIfLoaded = None \<rparr>
      else if FID = 3 then
        \<lparr> getFileCharacteristic = C_System, FI_getName = ''b.h'', OrigEntry = Some bFE,
          getBufferIfLoaded = None \<rparr>
      else if FID = 4 then
        \<lparr> getFileCharacteristic = C_User, FI_getName = ''gone.h'', OrigEntry = Some goneFE,
          getBufferIfLoaded = None \<rparr>
      else
        \<lparr> getFileCharacteristic = C_User, FI_getName = [], OrigEntry = None,
          getBufferIfLoaded = None \<rparr>)"

text \<open>A location is a thousand times the file plus the offset.\<close>

definition exampleEnv :: "CASObject env" where
  "exampleEnv =
     \<lparr> getSLocEntry_getFile = exampleFileInfo,
       getPredefinesFileID = 0,
       getDecomposedExpansionLoc = (\<lambda>Loc. (Loc div 1000, of_nat (Loc mod 1000))),
       getFile = (\<lambda>Path. if Path = ''p.h'' then Inr pFE else if Path = ''q.h'' then Inr qFE
                          else Inl 2),
       getObjectRefForFileContent =
         (\<lambda>Path. if Path = ''gone.h'' then Inl 2 else Inr (Some (Blob (''content of '' @ Path)))),
       makeAbsolutePath = (\<lambda>Path. ''/src/'' @ Path),
       remove_dots = (\<lambda>Path. Path),
       path_append = (\<lambda>Dir Path. Dir @ ''/'' @ Path),
       storeFromString = (\<lambda>Buffer. Inr (Blob Buffer)),
       IncludeFile_create = (\<lambda>Filename Contents. Inr (IncludeFileNode Filename Contents)),
       IncludeTree_create =
         (\<lambda>Kind FileNode Children Probes. Inr (IncludeTreeNode Kind FileNode Children Probes)),
       IncludeFileList_create = (\<lambda>Files. Inr (IncludeFileListNode Files)),
       IncludeTreeRoot_create =
         (\<lambda>MainTree FileList PCH. Inr (IncludeTreeRootNode MainTree FileList PCH)) \<rparr>"

text \<open>The same, with a store that cannot create the include-tree node of a system header.\<close>

definition failingStoreEnv :: "CASObject env" where
  "failingStoreEnv =
     exampleEnv\<lparr>IncludeTree_create :=
       (\<lambda>Kind FileNode Children Probes.
          if Kind = C_System then Inl (StoreError ''cannot store'')
          else Inr (IncludeTreeNode Kind FileNode Children Probes))\<rparr>"

text \<open>
  The main file probes once, includes \<^verbatim>\<open>a.h\<close> at offset 120, and \<^verbatim>\<open>a.h\<close>
  probes, includes \<^verbatim>\<open>b.h\<close> at offset 40 and probes again.
\<close>

definition exampleBody :: Inclusions where
  "exampleBody =
     Probe True
       (Inclusion 2 (Probe False (Inclusion 3 NoMore 2040 (Probe True NoMore))) 1120 NoMore)"

definition noPCH :: CompilerInstance where
  "noPCH = \<lparr> NoSanitizeFiles = [], Sysroot = [], ImplicitPCHInclude = [], getIncludedFiles = [] \<rparr>"

text \<open>
  With a precompiled header: the front end lists \<^verbatim>\<open>p.h\<close>, the main file and
  \<^verbatim>\<open>q.h\<close> as included.
\<close>

definition withPCH :: CompilerInstance where
  "withPCH = \<lparr> NoSanitizeFiles = [], Sysroot = [], ImplicitPCHInclude = ''pre.pch'',
               getIncludedFiles = [pFE, mainFE, qFE] \<rparr>"

text \<open>Options that name a file to leave unsanitized which the file manager cannot find.\<close>

definition missingNoSanitizeFile :: CompilerInstance where
  "missingNoSanitizeFile = noPCH\<lparr>NoSanitizeFiles := [''nowhere.txt'']\<rparr>"

text \<open>
  A front end with the same files whose file manager cannot read any content and whose
  store cannot store anything.
\<close>

definition unreadableEnv :: "CASObject env" where
  "unreadableEnv =
     exampleEnv\<lparr>getObjectRefForFileContent := (\<lambda>Path. Inl 5),
                 storeFromString := (\<lambda>Buffer. Inl (StoreError ''store is down'')),
                 IncludeFile_create := (\<lambda>Filename Contents. Inl (StoreError ''store is down''))\<rparr>"


section \<open>Properties of the command-line rewrite\<close>

lemma startswith_append_same: "startswith (P @ R) (P @ Q) = startswith R Q"
  by (simp add: startswith_def)

lemma startswith_appendD: "startswith Arg (P @ Q) \<Longrightarrow> startswith Arg P"
  unfolding startswith_def
proof -
  assume "take (length (P @ Q)) Arg = P @ Q"
  then have "take (length P) (take (length (P @ Q)) Arg) = take (length P) (P @ Q)" by simp
  then show "take (length P) Arg = P" by (simp add: min_def)
qed

lemma startswithE: "startswith Arg P \<Longrightarrow> \<exists>Rest. Arg = P @ Rest"
  unfolding startswith_def by (metis append_take_drop_id)

lemma flag_cache_path: "''-fmodules-cache-path='' = ''-fmodules-'' @ ''cache-path=''"
  by simp

lemma flag_prune_interval: "''-fmodules-prune-interval='' = ''-fmodules-'' @ ''prune-interval=''"
  by simp

lemma flag_prune_after: "''-fmodules-prune-after='' = ''-fmodules-'' @ ''prune-after=''"
  by simp

lemma flag_validate:
  "''-fmodules-validate-once-per-build-session'' = ''-fmodules-'' @ ''validate-once-per-build-session''"
  by simp

lemma modules_flag_not_build_session:
  "\<not> startswith (''-fmodules-'' @ Rest) ''-fbuild-session-file=''"
  by (simp add: startswith_def)

text \<open>The predicate of the source removes the flags the specification lists, and no other.\<close>

lemma unusedInExplicitCompile_iff: "unusedInExplicitCompile Arg = implicitModuleCachingFlag Arg"
proof (cases "startswith Arg ''-fmodules-''")
  case True
  then obtain Rest where A: "Arg = ''-fmodules-'' @ Rest"
    using startswithE by blast
  have c: "consume_front Arg ''-fmodules-'' = Some Rest"
    unfolding consume_front_def A by (simp add: startswith_def)
  show ?thesis
    unfolding unusedInExplicitCompile_def implicitModuleCachingFlag_def c
    unfolding A flag_cache_path flag_prune_interval flag_prune_after flag_validate
      startswith_append_same
    using modules_flag_not_build_session[of Rest] by simp
next
  case False
  then have c: "consume_front Arg ''-fmodules-'' = None"
    by (simp add: consume_front_def)
  have n: "\<not> startswith Arg (''-fmodules-'' @ Q)" for Q
    using False startswith_appendD by blast
  have v: "Arg \<noteq> ''-fmodules-'' @ Q" for Q
    using False by (auto simp: startswith_def)
  show ?thesis
    unfolding unusedInExplicitCompile_def implicitModuleCachingFlag_def c
    unfolding flag_cache_path flag_prune_interval flag_prune_after flag_validate
    using n v by simp
qed

lemma appended_flags_kept:
  "\<not> unusedInExplicitCompile ''-fno-implicit-modules''"
  "\<not> unusedInExplicitCompile ''-fno-implicit-module-maps''"
  by (simp_all add: unusedInExplicitCompile_def consume_front_def startswith_def)

lemma makeTUCommandLineWithoutPaths_eq:
  "makeTUCommandLineWithoutPaths Args =
     filter (\<lambda>Arg. \<not> implicitModuleCachingFlag Arg) Args
       @ [''-fno-implicit-modules'', ''-fno-implicit-module-maps'']"
proof -
  have "makeTUCommandLineWithoutPaths Args =
          filter (\<lambda>Arg. \<not> unusedInExplicitCompile Arg) Args
            @ filter (\<lambda>Arg. \<not> unusedInExplicitCompile Arg)
                [''-fno-implicit-modules'', ''-fno-implicit-module-maps'']"
    unfolding makeTUCommandLineWithoutPaths_def by (rule filter_append)
  also have "filter (\<lambda>Arg. \<not> unusedInExplicitCompile Arg)
                [''-fno-implicit-modules'', ''-fno-implicit-module-maps'']
             = [''-fno-implicit-modules'', ''-fno-implicit-module-maps'']"
    using appended_flags_kept by (simp del: list.inject char.inject)
  finally show ?thesis
    by (simp only: unusedInExplicitCompile_iff)
qed

text \<open>
  C2.  For a command line with a program name, the command line of the full-dependency
  result is the original one without its first argument and without every argument that
  is an implicit-module caching flag (cache path, prune interval, prune after, validate
  once per build session, build-session file), then \<^verbatim>\<open>-fno-implicit-modules\<close> and
  \<^verbatim>\<open>-fno-implicit-module-maps\<close>, then one \<^verbatim>\<open>-fmodule-file=\<close> flag for every
  prebuilt module and for every module imported by the main file.
\<close>

theorem C2_command_line_rewrite:
  "map_option (\<lambda>R. CommandLine (FullDeps R)) (getFullDependencies C (Program # Args) RootID) =
     Some (filter (\<lambda>Arg. \<not> implicitModuleCachingFlag Arg) Args
           @ [''-fno-implicit-modules'', ''-fno-implicit-module-maps'']
           @ map (\<lambda>PMD. ''-fmodule-file='' @ PCMFile PMD) (PrebuiltModuleDeps C)
           @ map (\<lambda>MD. ''-fmodule-file='' @ LookupModuleOutput C (ID MD) ModuleFile)
               (filter ImportedByMainFile (map snd (ClangModuleDeps C))))"
  by (simp add: getFullDependencies_def Let_def makeTUCommandLineWithoutPaths_eq
        del: list.inject char.inject)

text \<open>The example of the specification, with one prebuilt module and no other module.\<close>

theorem C2_command_line_rewrite_witness:
  "map_option (\<lambda>R. CommandLine (FullDeps R))
     (getFullDependencies
        \<lparr> Dependencies = [], 
          PrebuiltModuleDeps = [\<lparr> PMD_ModuleName = ''P'', PCMFile = ''/p.pcm'', ModuleMapFile = ''/p.modulemap'' \<rparr>],
          ClangModuleDeps = [], Consumer_ContextHash = ''H'', AlreadySeen = {},
          LookupModuleOutput = (\<lambda>I K. ''/out/'' @ ModuleName I) \<rparr>
        [''clang'', ''-fmodules-cache-path=/x'', ''-fbuild-session-file=/y'', ''-c'', ''a.c'']
        None)
   = Some [''-c'', ''a.c'', ''-fno-implicit-modules'', ''-fno-implicit-module-maps'',
           ''-fmodule-file=/p.pcm'']"
  by (simp add: C2_command_line_rewrite implicitModuleCachingFlag_def startswith_def)

section \<open>Properties of the full-dependency result\<close>

lemma filter_by_key:
  "\<forall>M \<in> set Ms. fst M = K (snd M) \<Longrightarrow>
     map snd (filter (\<lambda>M. fst M \<notin> S) Ms) = filter (\<lambda>MD. K MD \<notin> S) (map snd Ms)"
  by (induction Ms) auto

text \<open>
  C4.  When every record of the consumer's module map is stored under the key of its own
  identity, the discovered modules are exactly the records whose identity key is not in the
  already-seen set, in the order of the map; the directly imported modules are the
  identities of the records imported by the main file, whatever the already-seen set is.
\<close>

theorem C4_discovered_modules:
  assumes "\<forall>M \<in> set (ClangModuleDeps C). fst M = Key (ID (snd M))"
  shows "map_option DiscoveredModules (getFullDependencies C (Program # Args) RootID) =
           Some (filter (\<lambda>MD. Key (ID MD) \<notin> AlreadySeen C) (map snd (ClangModuleDeps C)))
         \<and> map_option (\<lambda>R. FD_ClangModuleDeps (FullDeps R))
             (getFullDependencies (C\<lparr>AlreadySeen := Seen\<rparr>) (Program # Args) RootID) =
           Some (map ID (filter ImportedByMainFile (map snd (ClangModuleDeps C))))"
proof -
  have "map snd (filter (\<lambda>M. fst M \<notin> AlreadySeen C) (ClangModuleDeps C)) =
        filter (\<lambda>MD. Key (ID MD) \<notin> AlreadySeen C) (map snd (ClangModuleDeps C))"
    using assms by (rule filter_by_key)
  then show ?thesis
    by (simp add: getFullDependencies_def Let_def)
qed

text \<open>
  Module \<open>M\<close> is already seen and imported by the main file, module \<open>N\<close> is neither:
  only \<open>N\<close> is discovered, and \<open>M\<close> is the directly imported module.
\<close>

theorem C4_discovered_modules_witness:
  "map_option DiscoveredModules
     (getFullDependencies
        \<lparr> Dependencies = [], PrebuiltModuleDeps = [],
          ClangModuleDeps =
            [(''hM'', \<lparr> ID = \<lparr> ModuleName = ''M'', ContextHash = ''h'' \<rparr>,
                        ImportedByMainFile = True, ClangModuleMapFile = ''m.modulemap'' \<rparr>),
             (''hN'', \<lparr> ID = \<lparr> ModuleName = ''N'', ContextHash = ''h'' \<rparr>,
                        ImportedByMainFile = False, ClangModuleMapFile = ''n.modulemap'' \<rparr>)],
          Consumer_ContextHash = ''h'', AlreadySeen = {''hM''},
          LookupModuleOutput = (\<lambda>I K. ModuleName I @ ''.pcm'') \<rparr>
        [''clang'', ''a.c''] None)
   = Some [\<lparr> ID = \<lparr> ModuleName = ''N'', ContextHash = ''h'' \<rparr>,
             ImportedByMainFile = False, ClangModuleMapFile = ''n.modulemap'' \<rparr>]
   \<and> map_option (\<lambda>R. FD_ClangModuleDeps (FullDeps R))
     (getFullDependencies
        \<lparr> Dependencies = [], PrebuiltModuleDeps = [],
          ClangModuleDeps =
            [(''hM'', \<lparr> ID = \<lparr> ModuleName = ''M'', ContextHash = ''h'' \<rparr>,
                        ImportedByMainFile = True, ClangModuleMapFile = ''m.modulemap'' \<rparr>),
             (''hN'', \<lparr> ID = \<lparr> ModuleName = ''N'', ContextHash = ''h'' \<rparr>,
                        ImportedByMainFile = False, ClangModuleMapFile = ''n.modulemap'' \<rparr>)],
          Consumer_ContextHash = ''h'', AlreadySeen = {''hM''},
          LookupModuleOutput = (\<lambda>I K. ModuleName I @ ''.pcm'') \<rparr>
        [''clang'', ''a.c''] None)
   = Some [\<lparr> ModuleName = ''M'', ContextHash = ''h'' \<rparr>]"
  using C4_discovered_modules
    [of "\<lparr> Dependencies = [], PrebuiltModuleDeps = [],
          ClangModuleDeps =
            [(''hM'', \<lparr> ID = \<lparr> ModuleName = ''M'', ContextHash = ''h'' \<rparr>,
                        ImportedByMainFile = True, ClangModuleMapFile = ''m.modulemap'' \<rparr>),
             (''hN'', \<lparr> ID = \<lparr> ModuleName = ''N'', ContextHash = ''h'' \<rparr>,
                        ImportedByMainFile = False, ClangModuleMapFile = ''n.modulemap'' \<rparr>)],
          Consumer_ContextHash = ''h'', AlreadySeen = {''hM''},
          LookupModuleOutput = (\<lambda>I K. ModuleName I @ ''.pcm'') \<rparr>"
        "\<lambda>I. ContextHash I @ ModuleName I" "''clang''" "[''a.c'']" None "{''hM''}"]
  by simp

section \<open>Properties of the flat dependency output\<close>

lemma handlePrinterEvents_flat:
  "handlePrinterEvents C Es = handlePrinterEvents C (filter flatEvent Es)"
proof (induction Es arbitrary: C)
  case Nil
  show ?case by simp
next
  case (Cons E Es)
  show ?case
    by (cases E) (simp_all add: Cons.IH)
qed

text \<open>
  C9.  Two runs that agree on the output options and the file dependencies, in order,
  print the same dependency text, whatever module, prebuilt-module and context-hash events
  each of them has.
\<close>

theorem C9_flat_output_ignores_modules:
  assumes "filter flatEvent Es1 = filter flatEvent Es2"
  shows "printDependencies outputDependencyFile (handlePrinterEvents C Es1) =
         printDependencies outputDependencyFile (handlePrinterEvents C Es2)"
proof -
  have "handlePrinterEvents C Es1 = handlePrinterEvents C (filter flatEvent Es1)"
    by (rule handlePrinterEvents_flat)
  also have "\<dots> = handlePrinterEvents C (filter flatEvent Es2)"
    using assms by simp
  also have "\<dots> = handlePrinterEvents C Es2"
    by (rule handlePrinterEvents_flat [symmetric])
  finally show ?thesis by simp
qed

text \<open>
  A run with a module, a prebuilt module and a context hash prints what the run without
  them prints; the generator here joins the target of the options and the files.
\<close>

theorem C9_flat_output_ignores_modules_witness:
  "printDependencies (\<lambda>Target Files. Target @ '':'' @ concat (map (\<lambda>F. '' '' @ F) Files))
     (handlePrinterEvents newPrinterConsumer
        [DependencyOutputOpts ''t'',
         ModuleDependency \<lparr> ID = \<lparr> ModuleName = ''M'', ContextHash = ''h'' \<rparr>,
                            ImportedByMainFile = True, ClangModuleMapFile = ''m.modulemap'' \<rparr>,
         FileDependency ''a.h'',
         PrebuiltModuleDependency
           \<lparr> PMD_ModuleName = ''P'', PCMFile = ''/p.pcm'', ModuleMapFile = ''/p.modulemap'' \<rparr>,
         ContextHashEvent ''h'',
         FileDependency ''b.h''])
   = Done ''t: a.h b.h''"
  using C9_flat_output_ignores_modules
    [of "[DependencyOutputOpts ''t'',
         ModuleDependency \<lparr> ID = \<lparr> ModuleName = ''M'', ContextHash = ''h'' \<rparr>,
                            ImportedByMainFile = True, ClangModuleMapFile = ''m.modulemap'' \<rparr>,
         FileDependency ''a.h'',
         PrebuiltModuleDependency
           \<lparr> PMD_ModuleName = ''P'', PCMFile = ''/p.pcm'', ModuleMapFile = ''/p.modulemap'' \<rparr>,
         ContextHashEvent ''h'',
         FileDependency ''b.h'']"
        "[DependencyOutputOpts ''t'', FileDependency ''a.h'', FileDependency ''b.h'']"
        "\<lambda>Target Files. Target @ '':'' @ concat (map (\<lambda>F. '' '' @ F) Files)"
        newPrinterConsumer]
  by (simp add: printDependencies_def newPrinterConsumer_def)

section \<open>What resolving a file changes\<close>

lemma addFile_Done:
  assumes "addToFileList_addFile env FE Contents S Filename = Done (S1, R)"
  shows "Filename \<noteq> [] \<and>
         ((\<exists>E. IncludeFile_create env Filename Contents = Inl E \<and> R = Inl E \<and> S1 = S) \<or>
          (\<exists>N. IncludeFile_create env Filename Contents = Inr N \<and> R = Inr N \<and>
               S1 = S\<lparr>IncludedFiles := IncludedFiles S @ [(N, word_of_int (getSize FE))]\<rparr>))"
proof (cases "IncludeFile_create env Filename Contents")
  case (Inl E)
  then show ?thesis
    using assms by (simp add: addToFileList_addFile_def split: if_splits)
next
  case (Inr N)
  then show ?thesis
    using assms by (auto simp: addToFileList_addFile_def split: if_splits)
qed

lemma addToFileList_alt:
  "addToFileList env S FE =
     (case getObjectRefForFileContent env (getName FE) of
        Inl EC \<Rightarrow> Done (S, Inl (errorCodeToError EC))
      | Inr None \<Rightarrow> AssertionFailure
      | Inr (Some Contents) \<Rightarrow>
          (if hasOtherPath env FE
           then (case addToFileList_addFile env FE Contents S (tryGetRealPathName FE) of
                   AssertionFailure \<Rightarrow> AssertionFailure
                 | Done (S1, Inl E) \<Rightarrow> Done (S1, Inl E)
                 | Done (S1, Inr FileNode) \<Rightarrow>
                     addToFileList_addFile env FE Contents S1 (getName FE))
           else addToFileList_addFile env FE Contents S (getName FE)))"
  by (simp add: addToFileList_def hasOtherPath_def Let_def split: sum.splits option.splits)

lemma addFile_Inr:
  "addToFileList_addFile env FE Contents S Filename = Done (S1, Inr N) \<longleftrightarrow>
     Filename \<noteq> [] \<and> IncludeFile_create env Filename Contents = Inr N \<and>
     S1 = S\<lparr>IncludedFiles := IncludedFiles S @ [(N, word_of_int (getSize FE))]\<rparr>"
  by (auto simp: addToFileList_addFile_def split: if_splits sum.splits)

text \<open>A successful \<open>addToFileList\<close>, in full.\<close>

lemma addToFileList_Inr:
  "addToFileList env S FE = Done (S1, Inr Ref) \<longleftrightarrow>
     (\<exists>Contents.
        getObjectRefForFileContent env (getName FE) = Inr (Some Contents) \<and>
        getName FE \<noteq> [] \<and>
        IncludeFile_create env (getName FE) Contents = Inr Ref \<and>
        (if hasOtherPath env FE
         then \<exists>RealNode.
                IncludeFile_create env (tryGetRealPathName FE) Contents = Inr RealNode \<and>
                S1 = S\<lparr>IncludedFiles := IncludedFiles S @
                        [(RealNode, word_of_int (getSize FE)), (Ref, word_of_int (getSize FE))]\<rparr>
         else S1 = S\<lparr>IncludedFiles := IncludedFiles S @ [(Ref, word_of_int (getSize FE))]\<rparr>))"
  unfolding addToFileList_alt addToFileList_addFile_def
  by (cases "getObjectRefForFileContent env (getName FE)")
     (auto simp: hasOtherPath_def split: sum.splits option.splits)

lemma addToFileList_entries:
  assumes "addToFileList env S FE = Done (S1, Inr Ref)"
  shows "S1 = S\<lparr>IncludedFiles := IncludedFiles S @ fileListEntries env FE\<rparr>"
    and "diskFileNode env FE = Some Ref"
  using assms unfolding addToFileList_Inr
  by (auto simp: fileListEntries_def diskFileNode_def split: if_splits)

text \<open>Whatever its result, \<open>addToFileList\<close> only appends to the file list.\<close>

lemma addToFileList_frame:
  assumes "addToFileList env S FE = Done (S1, R)"
  shows "\<exists>New. S1 = S\<lparr>IncludedFiles := IncludedFiles S @ New\<rparr> \<and>
               (\<forall>Entry \<in> set New. entryOfFile env FE Entry)"
proof (cases "getObjectRefForFileContent env (getName FE)")
  case (Inl EC)
  then have "S1 = S\<lparr>IncludedFiles := IncludedFiles S @ []\<rparr>"
    using assms by (simp add: addToFileList_alt)
  then show ?thesis by (intro exI[of _ "[]"]) simp
next
  case (Inr Found)
  then obtain Contents where c: "getObjectRefForFileContent env (getName FE) = Inr (Some Contents)"
    using assms by (cases Found) (auto simp: addToFileList_alt)
  have e: "entryOfFile env FE (N, word_of_int (getSize FE))"
    if "IncludeFile_create env (getName FE) Contents = Inr N \<or>
        IncludeFile_create env (tryGetRealPathName FE) Contents = Inr N" for N
    using that by (auto simp: entryOfFile_def c)
  show ?thesis
  proof (cases "hasOtherPath env FE")
    case False
    then have "addToFileList_addFile env FE Contents S (getName FE) = Done (S1, R)"
      using assms c by (simp add: addToFileList_alt)
    from addFile_Done[OF this] show ?thesis
    proof (elim conjE disjE exE)
      fix E assume "S1 = S"
      then have "S1 = S\<lparr>IncludedFiles := IncludedFiles S @ []\<rparr>" by simp
      then show ?thesis by (intro exI[of _ "[]"]) simp
    next
      fix N assume "IncludeFile_create env (getName FE) Contents = Inr N"
        and "S1 = S\<lparr>IncludedFiles := IncludedFiles S @ [(N, word_of_int (getSize FE))]\<rparr>"
      then show ?thesis using e by (intro exI[of _ "[(N, word_of_int (getSize FE))]"]) simp
    qed
  next
    case True
    then have a: "(case addToFileList_addFile env FE Contents S (tryGetRealPathName FE) of
                  AssertionFailure \<Rightarrow> AssertionFailure
                | Done (S1, Inl E) \<Rightarrow> Done (S1, Inl E)
                | Done (S1, Inr FileNode) \<Rightarrow> addToFileList_addFile env FE Contents S1 (getName FE))
               = Done (S1, R)"
      using assms c by (simp add: addToFileList_alt)
    then obtain S0 R0 where first: "addToFileList_addFile env FE Contents S (tryGetRealPathName FE) = Done (S0, R0)"
      by (cases "addToFileList_addFile env FE Contents S (tryGetRealPathName FE)") auto
    show ?thesis
    proof (cases R0)
      case (Inl E)
      then have "S1 = S0" using a first by simp
      moreover have "S0 = S" using addFile_Done[OF first] Inl by auto
      ultimately have "S1 = S\<lparr>IncludedFiles := IncludedFiles S @ []\<rparr>" by simp
      then show ?thesis by (intro exI[of _ "[]"]) simp
    next
      case (Inr N0)
      then have second: "addToFileList_addFile env FE Contents S0 (getName FE) = Done (S1, R)"
        using a first by simp
      have n0: "IncludeFile_create env (tryGetRealPathName FE) Contents = Inr N0"
        and s0: "S0 = S\<lparr>IncludedFiles := IncludedFiles S @ [(N0, word_of_int (getSize FE))]\<rparr>"
        using first Inr by (auto simp: addFile_Inr)
      from addFile_Done[OF second] show ?thesis
      proof (elim conjE disjE exE)
        fix E assume "S1 = S0"
        then have "S1 = S\<lparr>IncludedFiles := IncludedFiles S @ [(N0, word_of_int (getSize FE))]\<rparr>"
          using s0 by simp
        then show ?thesis using e n0
          by (intro exI[of _ "[(N0, word_of_int (getSize FE))]"]) simp
      next
        fix N assume "IncludeFile_create env (getName FE) Contents = Inr N"
          and "S1 = S0\<lparr>IncludedFiles := IncludedFiles S0 @ [(N, word_of_int (getSize FE))]\<rparr>"
        then show ?thesis using e n0 s0
          by (intro exI[of _ "[(N0, word_of_int (getSize FE)), (N, word_of_int (getSize FE))]"]) simp
      qed
    qed
  qed
qed

lemma addToFileList_same:
  assumes "addToFileList env S FE = Done (S1, R)"
  shows "IncludeStack S1 = IncludeStack S" "ErrorToReport S1 = ErrorToReport S"
    "PCHRef S1 = PCHRef S" "SeenIncludeFiles S1 = SeenIncludeFiles S"
    "ObjectForFile S1 = ObjectForFile S" "PredefinesBufferRef S1 = PredefinesBufferRef S"
  using addToFileList_frame[OF assms] by auto

lemma addToFileList_sameD:
  assumes "addToFileList env S FE = Done (S1, R)"
  shows "IncludeStack S1 = IncludeStack S \<and> ErrorToReport S1 = ErrorToReport S \<and>
    PCHRef S1 = PCHRef S \<and> SeenIncludeFiles S1 = SeenIncludeFiles S \<and>
    ObjectForFile S1 = ObjectForFile S \<and> PredefinesBufferRef S1 = PredefinesBufferRef S"
  using addToFileList_same[OF assms] by simp

lemma getObjectForFile_predefines:
  assumes "getPredefinesFileID env = FID"
  shows "getObjectForFile env S FID =
     (case PredefinesBufferRef S of
        Some Ref \<Rightarrow> Done (S, Inr Ref)
      | None \<Rightarrow>
          (case getObjectForBuffer env (getSLocEntry_getFile env FID) of
             AssertionFailure \<Rightarrow> AssertionFailure
           | Done (Inl E) \<Rightarrow> Done (S, Inl E)
           | Done (Inr Ref) \<Rightarrow> Done (S\<lparr>PredefinesBufferRef := Some Ref\<rparr>, Inr Ref)))"
  using assms by (simp add: getObjectForFile_def Let_def)

lemma getObjectForFile_disk:
  assumes "getPredefinesFileID env \<noteq> FID"
  shows "getObjectForFile env S FID =
     (case OrigEntry (getSLocEntry_getFile env FID) of
        None \<Rightarrow> AssertionFailure
      | Some FE \<Rightarrow>
          (case ObjectForFile S FE of
             Some Ref \<Rightarrow> Done (S, Inr Ref)
           | None \<Rightarrow>
               (case addToFileList env
                       (S\<lparr>SeenIncludeFiles := markSeen (SeenIncludeFiles S) (getUID FE)\<rparr>) FE of
                  AssertionFailure \<Rightarrow> AssertionFailure
                | Done (S1, Inl E) \<Rightarrow> Done (S1, Inl E)
                | Done (S1, Inr Ref) \<Rightarrow>
                    Done (S1\<lparr>ObjectForFile := (ObjectForFile S1)(FE \<mapsto> Ref)\<rparr>, Inr Ref))))"
  using assms
  by (simp add: getObjectForFile_def getObjectForFileNonCached_def Let_def split: option.splits)

text \<open>
  The shape of every resolution that returns: either nothing changes (a cached reference,
  or a failure of the buffer), or the predefines reference is set, or a file on disk is
  marked as seen and added to the file list, and cached when that succeeds.
\<close>

lemma getObjectForFile_Done:
  assumes "getObjectForFile env S FID = Done (S1, R)"
  shows "S1 = S
       \<or> (\<exists>Ref. getPredefinesFileID env = FID \<and> PredefinesBufferRef S = None \<and> R = Inr Ref \<and>
             bufferFileNode env (getSLocEntry_getFile env FID) = Some Ref \<and>
             S1 = S\<lparr>PredefinesBufferRef := Some Ref\<rparr>)
       \<or> (\<exists>FE E. getPredefinesFileID env \<noteq> FID \<and>
             OrigEntry (getSLocEntry_getFile env FID) = Some FE \<and> ObjectForFile S FE = None \<and>
             addToFileList env (S\<lparr>SeenIncludeFiles := markSeen (SeenIncludeFiles S) (getUID FE)\<rparr>) FE
               = Done (S1, Inl E) \<and> R = Inl E)
       \<or> (\<exists>FE S0 Ref. getPredefinesFileID env \<noteq> FID \<and>
             OrigEntry (getSLocEntry_getFile env FID) = Some FE \<and> ObjectForFile S FE = None \<and>
             addToFileList env (S\<lparr>SeenIncludeFiles := markSeen (SeenIncludeFiles S) (getUID FE)\<rparr>) FE
               = Done (S0, Inr Ref) \<and> R = Inr Ref \<and>
             S1 = S0\<lparr>ObjectForFile := (ObjectForFile S0)(FE \<mapsto> Ref)\<rparr>)"
proof (cases "getPredefinesFileID env = FID")
  case True
  show ?thesis
    using assms True unfolding getObjectForFile_predefines[OF True]
    by (auto simp: bufferFileNode_def split: option.splits outcome.splits sum.splits)
next
  case False
  show ?thesis
    using assms False unfolding getObjectForFile_disk[OF False]
    by (auto split: option.splits outcome.splits sum.splits prod.splits)
qed

lemma getObjectForFile_same:
  assumes "getObjectForFile env S FID = Done (S1, R)"
  shows "IncludeStack S1 = IncludeStack S" "ErrorToReport S1 = ErrorToReport S"
    "PCHRef S1 = PCHRef S"
  using getObjectForFile_Done[OF assms]
  by (auto dest!: addToFileList_sameD)

text \<open>A cached reference stays, and it is returned without any change of the state.\<close>

lemma getObjectForFile_keeps_caches:
  assumes "getObjectForFile env S FID = Done (S1, R)"
  shows "ObjectForFile S FE = Some Ref \<Longrightarrow> ObjectForFile S1 FE = Some Ref"
    and "PredefinesBufferRef S = Some Ref \<Longrightarrow> PredefinesBufferRef S1 = Some Ref"
  using getObjectForFile_Done[OF assms]
  by (auto dest!: addToFileList_sameD)

lemma getObjectForFile_cached:
  assumes "getPredefinesFileID env \<noteq> FID"
    and "OrigEntry (getSLocEntry_getFile env FID) = Some FE"
    and "ObjectForFile S FE = Some Ref"
  shows "getObjectForFile env S FID = Done (S, Inr Ref)"
  using assms by (simp add: getObjectForFile_disk)

lemma getObjectForFile_memoized:
  assumes "getPredefinesFileID env = FID" and "PredefinesBufferRef S = Some Ref"
  shows "getObjectForFile env S FID = Done (S, Inr Ref)"
  using assms by (simp add: getObjectForFile_predefines)

lemma getObjectForFile_coherent:
  assumes "coherent env S" and "getObjectForFile env S FID = Done (S1, R)"
  shows "coherent env S1" and "R = Inr Ref \<Longrightarrow> fileNodeOf env FID = Some Ref"
proof -
  have "coherent env S1 \<and> (R = Inr Ref \<longrightarrow> fileNodeOf env FID = Some Ref)"
    using getObjectForFile_Done[OF assms(2)]
  proof (elim disjE exE conjE)
    assume same: "S1 = S"
    have "fileNodeOf env FID = Some Ref" if "R = Inr Ref"
    proof (cases "getPredefinesFileID env = FID")
      case True
      then show ?thesis
        using assms that same unfolding getObjectForFile_predefines[OF True]
        by (auto simp: coherent_def fileNodeOf_def bufferFileNode_def
              split: option.splits outcome.splits sum.splits)
    next
      case False
      then show ?thesis
        using assms that same unfolding getObjectForFile_disk[OF False]
        by (auto simp: coherent_def fileNodeOf_def dest!: addToFileList_entries(2)
              split: option.splits outcome.splits sum.splits prod.splits)
    qed
    then show ?thesis using assms(1) same by simp
  next
    fix Ref'
    assume "getPredefinesFileID env = FID" "R = Inr Ref'"
      "bufferFileNode env (getSLocEntry_getFile env FID) = Some Ref'"
      "S1 = S\<lparr>PredefinesBufferRef := Some Ref'\<rparr>"
    then show ?thesis
      using assms(1) by (auto simp: coherent_def fileNodeOf_def)
  next
    fix FE E
    assume a: "addToFileList env
        (S\<lparr>SeenIncludeFiles := markSeen (SeenIncludeFiles S) (getUID FE)\<rparr>) FE = Done (S1, Inl E)"
      "R = Inl E"
    show ?thesis
      using assms(1) addToFileList_same[OF a(1)] a(2) by (simp add: coherent_def)
  next
    fix FE S0 Ref'
    assume a: "getPredefinesFileID env \<noteq> FID"
      "OrigEntry (getSLocEntry_getFile env FID) = Some FE"
      "addToFileList env (S\<lparr>SeenIncludeFiles := markSeen (SeenIncludeFiles S) (getUID FE)\<rparr>) FE
         = Done (S0, Inr Ref')"
      "R = Inr Ref'"
      "S1 = S0\<lparr>ObjectForFile := (ObjectForFile S0)(FE \<mapsto> Ref')\<rparr>"
    have c0: "coherent env S0"
      using assms(1) addToFileList_same[OF a(3)] by (simp add: coherent_def)
    have "diskFileNode env FE = Some Ref'"
      by (rule addToFileList_entries(2)[OF a(3)])
    then show ?thesis
      using a c0 by (auto simp: coherent_def fileNodeOf_def)
  qed
  then show "coherent env S1" and "R = Inr Ref \<Longrightarrow> fileNodeOf env FID = Some Ref"
    by simp_all
qed


section \<open>Events: a recorded error, and what a successful event does\<close>

lemma handleEvent_after_error:
  assumes "ErrorToReport S = Some E"
  shows "handleEvent env S Ev = Done S"
  using assms
  by (cases Ev)
     (simp_all add: enteredInclude_def exitedInclude_def handleHasIncludeCheck_def
        hasErrorOccurred_def)

lemma handleEvents_after_error:
  assumes "ErrorToReport S = Some E"
  shows "handleEvents env S Es = Done S"
  using assms by (induction Es) (simp_all add: handleEvent_after_error)

lemma handleEvents_append:
  "handleEvents env S (Es1 @ Es2) =
     (case handleEvents env S Es1 of
        AssertionFailure \<Rightarrow> AssertionFailure
      | Done S1 \<Rightarrow> handleEvents env S1 Es2)"
  by (induction Es1 arbitrary: S) (auto split: outcome.splits)

lemma handleEvents_no_error_before:
  assumes "handleEvents env S Es = Done S'" and "ErrorToReport S' = None"
  shows "ErrorToReport S = None"
proof (cases "ErrorToReport S")
  case None
  then show ?thesis .
next
  case (Some E)
  then have "S' = S" using assms(1) by (simp add: handleEvents_after_error)
  then show ?thesis using assms(2) by simp
qed

lemma assertTopIs_Done:
  assumes "assertTopIs env S FID = Done S1"
  shows "getObjectForFile env S FID = Done (S1, Inr (File (last (IncludeStack S))))"
    and "IncludeStack S \<noteq> []"
proof -
  obtain R where g: "getObjectForFile env S FID = Done (S1, R)"
    using assms by (auto simp: assertTopIs_def split: outcome.splits sum.splits if_splits)
  have st: "IncludeStack S1 = IncludeStack S"
    by (rule getObjectForFile_same(1)[OF g])
  show "getObjectForFile env S FID = Done (S1, Inr (File (last (IncludeStack S))))"
    and "IncludeStack S \<noteq> []"
    using assms g st by (auto simp: assertTopIs_def split: sum.splits if_splits)
qed

lemma assertTopIs_fails:
  assumes "\<And>S1 Ref. getObjectForFile env S FID = Done (S1, Inr Ref) \<Longrightarrow>
             IncludeStack S = [] \<or> File (last (IncludeStack S)) \<noteq> Ref"
  shows "assertTopIs env S FID = AssertionFailure"
proof (cases "getObjectForFile env S FID")
  case AssertionFailure
  then show ?thesis by (simp add: assertTopIs_def)
next
  case (Done P)
  obtain S1 R where p: "P = (S1, R)" by (cases P)
  show ?thesis
  proof (cases R)
    case (Inl E)
    then show ?thesis using Done p by (simp add: assertTopIs_def)
  next
    case (Inr Ref)
    then have g: "getObjectForFile env S FID = Done (S1, Inr Ref)" using Done p by simp
    have "IncludeStack S1 = IncludeStack S" by (rule getObjectForFile_same(1)[OF g])
    then show ?thesis using assms[OF g] g by (auto simp: assertTopIs_def)
  qed
qed

text \<open>An \<open>Entered\<close> event that records no error resolves the file and pushes its frame.\<close>

lemma enteredInclude_ok:
  assumes "enteredInclude env S FID = Done S'" and "ErrorToReport S' = None"
  shows "\<exists>S1 FileRef.
           getObjectForFile env S FID = Done (S1, Inr FileRef) \<and>
           S' = S1\<lparr>IncludeStack := IncludeStack S @
                  [\<lparr> FileCharacteristic = getFileCharacteristic (getSLocEntry_getFile env FID),
                     File = FileRef, Includes = [], HasIncludeChecks = [] \<rparr>]\<rparr>"
proof -
  have n: "\<not> hasErrorOccurred S"
    using assms by (auto simp: enteredInclude_def hasErrorOccurred_def split: if_splits)
  then obtain S1 R where g: "getObjectForFile env S FID = Done (S1, R)"
    using assms(1) by (auto simp: enteredInclude_def split: outcome.splits)
  show ?thesis
  proof (cases R)
    case (Inl E)
    then have "S' = S1\<lparr>ErrorToReport := Some E\<rparr>"
      using assms(1) n g by (simp add: enteredInclude_def)
    then show ?thesis using assms(2) by simp
  next
    case (Inr FileRef)
    then show ?thesis
      using assms n g getObjectForFile_same(1)[OF g] by (simp add: enteredInclude_def)
  qed
qed

text \<open>
  An \<open>Exited\<close> event that records no error: the top frame is the one of the included
  file, it is removed and made a node, and the node is appended with the offset to the
  frame below, which is the one of the including file.
\<close>

lemma exitedInclude_ok:
  assumes "exitedInclude env S IncludedBy Include ExitLoc = Done S'"
    and "ErrorToReport S = None" and "ErrorToReport S' = None"
  shows "\<exists>S1 S3 Below Parent Child Tree.
           IncludeStack S = Below @ [Parent, Child] \<and>
           getObjectForFile env S Include = Done (S1, Inr (File Child)) \<and>
           getCASTreeForFileIncludes env Child = Inr Tree \<and>
           getObjectForFile env (S1\<lparr>IncludeStack := Below @ [Parent]\<rparr>) IncludedBy
             = Done (S3, Inr (File Parent)) \<and>
           S' = S3\<lparr>IncludeStack := Below @
                  [Parent\<lparr>Includes := Includes Parent @
                     [(Tree, snd (getDecomposedExpansionLoc env ExitLoc))]\<rparr>]\<rparr>"
proof -
  have n: "\<not> hasErrorOccurred S" using assms(2) by (simp add: hasErrorOccurred_def)
  obtain S1 where a1: "assertTopIs env S Include = Done S1"
    using assms(1) n by (auto simp: exitedInclude_def split: outcome.splits)
  note g1 = assertTopIs_Done[OF a1]
  have st1: "IncludeStack S1 = IncludeStack S" and e1: "ErrorToReport S1 = None"
    using getObjectForFile_same[OF g1(1)] assms(2) by simp_all
  define Child where "Child = last (IncludeStack S)"
  define Rest where "Rest = butlast (IncludeStack S)"
  have split1: "IncludeStack S = Rest @ [Child]"
    using g1(2) by (simp add: Child_def Rest_def)
  define S2 where "S2 = S1\<lparr>IncludeStack := Rest\<rparr>"
  obtain Tree where t: "getCASTreeForFileIncludes env Child = Inr Tree"
  proof (cases "getCASTreeForFileIncludes env Child")
    case (Inl E)
    then have "S' = S2\<lparr>ErrorToReport := Some E\<rparr>"
      using assms(1) n a1 st1
      by (simp add: exitedInclude_def Let_def Child_def Rest_def S2_def)
    then show ?thesis using assms(3) by simp
  next
    case (Inr Tree)
    then show ?thesis using that by simp
  qed
  have step: "(case assertTopIs env S2 IncludedBy of
                 AssertionFailure \<Rightarrow> AssertionFailure
               | Done S3 \<Rightarrow>
                   Done (S3\<lparr>IncludeStack := butlast (IncludeStack S3) @
                      [(last (IncludeStack S3))
                         \<lparr>Includes := Includes (last (IncludeStack S3)) @
                            [(Tree, snd (getDecomposedExpansionLoc env ExitLoc))]\<rparr>]\<rparr>)) = Done S'"
    using assms(1) n a1 st1 t
    by (simp add: exitedInclude_def Let_def Child_def Rest_def S2_def)
  then obtain S3 where a3: "assertTopIs env S2 IncludedBy = Done S3"
    by (cases "assertTopIs env S2 IncludedBy") auto
  note g3 = assertTopIs_Done[OF a3]
  have st3: "IncludeStack S3 = Rest"
    using getObjectForFile_same(1)[OF g3(1)] by (simp add: S2_def)
  have ne: "Rest \<noteq> []" using g3(2) by (simp add: S2_def)
  define Parent where "Parent = last Rest"
  define Below where "Below = butlast Rest"
  have split2: "Rest = Below @ [Parent]"
    using ne by (simp add: Parent_def Below_def)
  have s': "S' = S3\<lparr>IncludeStack := Below @
                  [Parent\<lparr>Includes := Includes Parent @
                     [(Tree, snd (getDecomposedExpansionLoc env ExitLoc))]\<rparr>]\<rparr>"
    using step a3 st3 by (simp add: Parent_def Below_def)
  have "IncludeStack S = Below @ [Parent, Child]"
    using split1 split2 by simp
  moreover have "getObjectForFile env S Include = Done (S1, Inr (File Child))"
    using g1(1) by (simp add: Child_def)
  moreover have "getObjectForFile env (S1\<lparr>IncludeStack := Below @ [Parent]\<rparr>) IncludedBy
             = Done (S3, Inr (File Parent))"
    using g3(1) split2 by (simp add: S2_def)
  ultimately show ?thesis using t s' by blast
qed

lemma handleHasIncludeCheck_ok:
  assumes "handleHasIncludeCheck S Result = Done S'" and "ErrorToReport S = None"
  shows "IncludeStack S \<noteq> []"
    and "S' = S\<lparr>IncludeStack := butlast (IncludeStack S) @
              [(last (IncludeStack S))
                 \<lparr>HasIncludeChecks := HasIncludeChecks (last (IncludeStack S)) @ [Result]\<rparr>]\<rparr>"
  using assms by (auto simp: handleHasIncludeCheck_def hasErrorOccurred_def split: if_splits)


section \<open>Balanced event sequences build the nodes they describe\<close>

lemma coherent_IncludeStack [simp]:
  "coherent env (S\<lparr>IncludeStack := Stack\<rparr>) = coherent env S"
  by (simp add: coherent_def)

lemma coherent_newConsumer: "coherent env newConsumer"
  by (simp add: coherent_def newConsumer_def)

lemma handleEvent_coherent:
  assumes "coherent env S" and "handleEvent env S Ev = Done S'"
  shows "coherent env S'"
proof (cases "ErrorToReport S")
  case (Some E)
  then show ?thesis using assms by (simp add: handleEvent_after_error)
next
  case None
  then have n: "\<not> hasErrorOccurred S" by (simp add: hasErrorOccurred_def)
  show ?thesis
  proof (cases Ev)
    case (Entered FID)
    then obtain S1 R where g: "getObjectForFile env S FID = Done (S1, R)"
      using assms(2) n by (auto simp: enteredInclude_def split: outcome.splits)
    have c1: "coherent env S1" by (rule getObjectForFile_coherent(1)[OF assms(1) g])
    have e: "coherent env (S1\<lparr>ErrorToReport := X\<rparr>)" for X
      using c1 by (simp add: coherent_def)
    show ?thesis
      using assms(2) n g c1 e Entered by (cases R) (auto simp: enteredInclude_def)
  next
    case (Exited IncludedBy Incl ExitLoc)
    then have x: "exitedInclude env S IncludedBy Incl ExitLoc = Done S'"
      using assms(2) by simp
    obtain S1 where a1: "assertTopIs env S Incl = Done S1"
      using x n by (auto simp: exitedInclude_def split: outcome.splits)
    have c1: "coherent env S1"
      by (rule getObjectForFile_coherent(1)[OF assms(1) assertTopIs_Done(1)[OF a1]])
    show ?thesis
    proof (cases "getCASTreeForFileIncludes env (last (IncludeStack S1))")
      case (Inl E)
      then have "S' = S1\<lparr>IncludeStack := butlast (IncludeStack S1), ErrorToReport := Some E\<rparr>"
        using x n a1 by (simp add: exitedInclude_def Let_def)
      then show ?thesis using c1 by (simp add: coherent_def)
    next
      case (Inr Tree)
      then obtain S3 where a3:
        "assertTopIs env (S1\<lparr>IncludeStack := butlast (IncludeStack S1)\<rparr>) IncludedBy = Done S3"
        using x n a1 by (auto simp: exitedInclude_def Let_def split: outcome.splits)
      have "coherent env S3"
        using getObjectForFile_coherent(1)[OF _ assertTopIs_Done(1)[OF a3]] c1 by simp
      then show ?thesis
        using x n a1 a3 Inr by (auto simp: exitedInclude_def Let_def)
    qed
  next
    case (HasIncludeCheck Result)
    then show ?thesis
      using assms n by (auto simp: handleHasIncludeCheck_def split: if_splits)
  qed
qed

lemma handleEvents_coherent:
  assumes "coherent env S" and "handleEvents env S Es = Done S'"
  shows "coherent env S'"
  using assms
proof (induction Es arbitrary: S)
  case Nil
  then show ?case by simp
next
  case (Cons Ev Es)
  then obtain S1 where "handleEvent env S Ev = Done S1" "handleEvents env S1 Es = Done S'"
    by (auto split: outcome.splits)
  then show ?case using Cons.IH Cons.prems(1) handleEvent_coherent by blast
qed

text \<open>
  The events of a balanced sequence, handled while the frame \<open>Top\<close> is on top of the stack
  and without an error left at the end, append to \<open>Top\<close> the children and the probes of
  the sequence and change no other frame.
\<close>

lemma eventsOf_effect:
  assumes "coherent env S" and "IncludeStack S = Below @ [Top]"
    and "handleEvents env S (eventsOf Parent Body) = Done S'"
    and "ErrorToReport S' = None"
  shows "\<exists>Children.
           childrenOf env Body = Some Children \<and>
           IncludeStack S' =
             Below @ [Top\<lparr>Includes := Includes Top @ Children,
                         HasIncludeChecks := HasIncludeChecks Top @ probesOf Body\<rparr>]"
  using assms
proof (induction Body arbitrary: S S' Below Top Parent)
  case NoMore
  then show ?case by simp
next
  case (Probe Result Rest)
  from Probe.prems(3) obtain S1 where
    h: "handleHasIncludeCheck S Result = Done S1"
    and r: "handleEvents env S1 (eventsOf Parent Rest) = Done S'"
    by (auto split: outcome.splits)
  have e1: "ErrorToReport S1 = None"
    by (rule handleEvents_no_error_before[OF r Probe.prems(4)])
  have e0: "ErrorToReport S = None"
    using handleEvents_no_error_before[OF Probe.prems(3) Probe.prems(4)] .
  have s1: "S1 = S\<lparr>IncludeStack := Below @
              [Top\<lparr>HasIncludeChecks := HasIncludeChecks Top @ [Result]\<rparr>]\<rparr>"
    using handleHasIncludeCheck_ok(2)[OF h e0] Probe.prems(2) by simp
  have c1: "coherent env S1" using Probe.prems(1) s1 by simp
  have st1: "IncludeStack S1 = Below @ [Top\<lparr>HasIncludeChecks := HasIncludeChecks Top @ [Result]\<rparr>]"
    using s1 by simp
  from Probe.IH[OF c1 st1 r Probe.prems(4)] show ?case by auto
next
  case (Inclusion FID Inner ExitLoc Rest)
  from Inclusion.prems(3) obtain Sa where
    en: "enteredInclude env S FID = Done Sa"
    and r1: "handleEvents env Sa
               (eventsOf FID Inner @ Exited Parent FID ExitLoc # eventsOf Parent Rest) = Done S'"
    by (auto split: outcome.splits)
  from r1 obtain Sb where
    inner: "handleEvents env Sa (eventsOf FID Inner) = Done Sb"
    and r2: "handleEvents env Sb (Exited Parent FID ExitLoc # eventsOf Parent Rest) = Done S'"
    by (auto simp: handleEvents_append split: outcome.splits)
  from r2 obtain Sc where
    ex: "exitedInclude env Sb Parent FID ExitLoc = Done Sc"
    and rest: "handleEvents env Sc (eventsOf Parent Rest) = Done S'"
    by (auto split: outcome.splits)
  have ec: "ErrorToReport Sc = None"
    by (rule handleEvents_no_error_before[OF rest Inclusion.prems(4)])
  have eb: "ErrorToReport Sb = None"
    by (rule handleEvents_no_error_before[OF r2 Inclusion.prems(4)])
  have ea: "ErrorToReport Sa = None"
    by (rule handleEvents_no_error_before[OF r1 Inclusion.prems(4)])
  \<comment> \<open>entering the file\<close>
  define Frame where "Frame FileRef =
     \<lparr> FileCharacteristic = getFileCharacteristic (getSLocEntry_getFile env FID),
       File = FileRef, Includes = [], HasIncludeChecks = [] \<rparr>" for FileRef :: 'a
  from enteredInclude_ok[OF en ea] obtain S1 FileRef where
    g: "getObjectForFile env S FID = Done (S1, Inr FileRef)"
    and sa: "Sa = S1\<lparr>IncludeStack := IncludeStack S @ [Frame FileRef]\<rparr>"
    unfolding Frame_def by blast
  have fn: "fileNodeOf env FID = Some FileRef"
    using getObjectForFile_coherent(2)[OF Inclusion.prems(1) g] by simp
  have ca: "coherent env Sa"
    using getObjectForFile_coherent(1)[OF Inclusion.prems(1) g] sa by simp
  have sta: "IncludeStack Sa = (Below @ [Top]) @ [Frame FileRef]"
    using sa Inclusion.prems(2) by simp
  \<comment> \<open>inside the file\<close>
  from Inclusion.IH(1)[OF ca sta inner eb] obtain InnerChildren where
    ci: "childrenOf env Inner = Some InnerChildren"
    and stb: "IncludeStack Sb = (Below @ [Top]) @
               [(Frame FileRef)\<lparr>Includes := Includes (Frame FileRef) @ InnerChildren,
                  HasIncludeChecks := HasIncludeChecks (Frame FileRef) @ probesOf Inner\<rparr>]"
    by blast
  have cb: "coherent env Sb" by (rule handleEvents_coherent[OF ca inner])
  \<comment> \<open>leaving the file\<close>
  from exitedInclude_ok[OF ex eb ec] obtain S3 Below' Parent' Child Tree where
    x: "IncludeStack Sb = Below' @ [Parent', Child]"
       "getCASTreeForFileIncludes env Child = Inr Tree"
       "Sc = S3\<lparr>IncludeStack := Below' @
                  [Parent'\<lparr>Includes := Includes Parent' @
                     [(Tree, snd (getDecomposedExpansionLoc env ExitLoc))]\<rparr>]\<rparr>"
    by blast
  have same: "Below' = Below" "Parent' = Top"
    "Child = (Frame FileRef)\<lparr>Includes := InnerChildren, HasIncludeChecks := probesOf Inner\<rparr>"
    using x(1) stb by (simp_all add: Frame_def)
  have tn: "treeNode env FID InnerChildren (probesOf Inner) = Some Tree"
    using x(2) fn by (simp add: same treeNode_def getCASTreeForFileIncludes_def Frame_def)
  have "handleEvent env Sb (Exited Parent FID ExitLoc) = Done Sc" using ex by simp
  then have cc: "coherent env Sc" by (rule handleEvent_coherent[OF cb])
  have stc: "IncludeStack Sc = Below @
               [Top\<lparr>Includes := Includes Top @
                  [(Tree, snd (getDecomposedExpansionLoc env ExitLoc))]\<rparr>]"
    using x(3) same by simp
  \<comment> \<open>the rest\<close>
  from Inclusion.IH(2)[OF cc stc rest Inclusion.prems(4)] obtain Others where
    co: "childrenOf env Rest = Some Others"
    and st': "IncludeStack S' = Below @
               [Top\<lparr>Includes := Includes Top @
                   [(Tree, snd (getDecomposedExpansionLoc env ExitLoc))]\<rparr>
                 \<lparr>Includes := Includes (Top\<lparr>Includes := Includes Top @
                      [(Tree, snd (getDecomposedExpansionLoc env ExitLoc))]\<rparr>) @ Others,
                  HasIncludeChecks := HasIncludeChecks (Top\<lparr>Includes := Includes Top @
                      [(Tree, snd (getDecomposedExpansionLoc env ExitLoc))]\<rparr>) @ probesOf Rest\<rparr>]"
    by blast
  show ?case using ci tn co st' by simp
qed


section \<open>What finalize changes\<close>

lemma extendsFileList_refl: "extendsFileList env S S"
  by (simp add: extendsFileList_def)

lemma extendsFileList_trans:
  assumes "extendsFileList env S S1" and "extendsFileList env S1 S2"
  shows "extendsFileList env S S2"
proof -
  obtain New1 where n1: "IncludedFiles S1 = IncludedFiles S @ New1"
    "\<forall>Entry \<in> set New1. \<exists>FE. entryOfFile env FE Entry"
    using assms(1) by (auto simp: extendsFileList_def)
  obtain New2 where n2: "IncludedFiles S2 = IncludedFiles S1 @ New2"
    "\<forall>Entry \<in> set New2. \<exists>FE. entryOfFile env FE Entry"
    using assms(2) by (auto simp: extendsFileList_def)
  have "IncludedFiles S2 = IncludedFiles S @ (New1 @ New2)"
    "\<forall>Entry \<in> set (New1 @ New2). \<exists>FE. entryOfFile env FE Entry"
    using n1 n2 by auto
  then have "\<exists>New. IncludedFiles S2 = IncludedFiles S @ New \<and>
               (\<forall>Entry \<in> set New. \<exists>FE. entryOfFile env FE Entry)"
    by blast
  then show ?thesis
    using assms by (simp add: extendsFileList_def)
qed

lemma assignErrorToReport_Done:
  assumes "assignErrorToReport S E = Done S1"
  shows "ErrorToReport S = None" and "S1 = S\<lparr>ErrorToReport := Some E\<rparr>"
  using assms by (auto simp: assignErrorToReport_def hasErrorOccurred_def split: if_splits)

lemma extendsFileList_error:
  assumes "extendsFileList env S S1" and "assignErrorToReport S1 E = Done S2"
  shows "extendsFileList env S S2"
proof -
  note a = assignErrorToReport_Done[OF assms(2)]
  have "ErrorToReport S = None"
    using assms(1) a(1) by (cases "ErrorToReport S") (auto simp: extendsFileList_def)
  then show ?thesis
    using assms(1) a(2) by (simp add: extendsFileList_def)
qed

lemma extendsFileList_PCHRef:
  assumes "extendsFileList env S S1"
  shows "extendsFileList env S (S1\<lparr>PCHRef := Ref\<rparr>)"
  using assms by (simp add: extendsFileList_def)

lemma addToFileList_extends:
  assumes "addToFileList env S FE = Done (S1, R)"
  shows "extendsFileList env S S1"
proof -
  obtain New where "S1 = S\<lparr>IncludedFiles := IncludedFiles S @ New\<rparr>"
    "\<forall>Entry \<in> set New. entryOfFile env FE Entry"
    using addToFileList_frame[OF assms] by blast
  then show ?thesis by (auto simp: extendsFileList_def)
qed

lemma finalize_addFile_extends:
  assumes "finalize_addFile env S FilePath Ignore = Done (S1, Ok)"
  shows "extendsFileList env S S1" and "\<not> Ok \<Longrightarrow> ErrorToReport S1 \<noteq> None"
proof -
  have "extendsFileList env S S1 \<and> (\<not> Ok \<longrightarrow> ErrorToReport S1 \<noteq> None)"
  proof (cases "getFile env FilePath")
    case (Inl EC)
    show ?thesis
    proof (cases Ignore)
      case True
      then show ?thesis
        using assms Inl by (simp add: finalize_addFile_def extendsFileList_refl)
    next
      case False
      then obtain S2 where b: "assignErrorToReport S (errorCodeToError EC) = Done S2"
        and r: "S1 = S2" "\<not> Ok"
        using assms Inl by (auto simp: finalize_addFile_def split: outcome.splits)
      show ?thesis
        using extendsFileList_error[OF extendsFileList_refl b] assignErrorToReport_Done(2)[OF b] r
        by simp
    qed
  next
    case (Inr FE)
    then obtain S0 R where a: "addToFileList env S FE = Done (S0, R)"
      using assms by (auto simp: finalize_addFile_def split: outcome.splits)
    note x = addToFileList_extends[OF a]
    show ?thesis
    proof (cases R)
      case (Inl E)
      then obtain S2 where b: "assignErrorToReport S0 E = Done S2" and r: "S1 = S2" "\<not> Ok"
        using assms Inr a by (auto simp: finalize_addFile_def split: outcome.splits)
      show ?thesis
        using extendsFileList_error[OF x b] assignErrorToReport_Done(2)[OF b] r by simp
    next
      case (Inr Ref)
      then show ?thesis
        using assms \<open>getFile env FilePath = Inr FE\<close> a x by (simp add: finalize_addFile_def)
    qed
  qed
  then show "extendsFileList env S S1" and "\<not> Ok \<Longrightarrow> ErrorToReport S1 \<noteq> None"
    by simp_all
qed

lemma addNoSanitizeFiles_extends:
  assumes "addNoSanitizeFiles env S Paths = Done (S1, Ok)"
  shows "extendsFileList env S S1 \<and> (\<not> Ok \<longrightarrow> ErrorToReport S1 \<noteq> None)"
  using assms
proof (induction Paths arbitrary: S)
  case Nil
  then show ?case by (simp add: extendsFileList_refl)
next
  case (Cons FilePath Rest)
  then obtain S0 Ok0 where a: "finalize_addFile env S FilePath False = Done (S0, Ok0)"
    by (auto split: outcome.splits)
  note f = finalize_addFile_extends[OF a]
  show ?case
  proof (cases Ok0)
    case True
    then have "addNoSanitizeFiles env S0 Rest = Done (S1, Ok)"
      using Cons.prems a by simp
    from Cons.IH[OF this] show ?thesis
      using f(1) extendsFileList_trans by blast
  next
    case False
    then have "S1 = S0" "\<not> Ok" using Cons.prems a by simp_all
    then show ?thesis using f False by simp
  qed
qed

lemma addSDKSettings_extends:
  assumes "addSDKSettings env S Root = Done S1"
  shows "extendsFileList env S S1"
proof (cases "Root = []")
  case True
  then show ?thesis using assms by (simp add: addSDKSettings_def extendsFileList_refl)
next
  case False
  then obtain Ok where
    "finalize_addFile env S (path_append env Root ''SDKSettings.json'') True = Done (S1, Ok)"
    using assms by (auto simp: addSDKSettings_def split: outcome.splits)
  then show ?thesis by (rule finalize_addFile_extends(1))
qed

text \<open>The loop over the files that were not seen: all of them are added, or an error is recorded.\<close>

lemma addNotSeenIncludes_result:
  assumes "addNotSeenIncludes env S FEs = Done (S1, Ok)"
  shows "extendsFileList env S S1"
    and "\<not> Ok \<Longrightarrow> ErrorToReport S1 \<noteq> None"
    and "Ok \<Longrightarrow> S1 = S\<lparr>IncludedFiles := IncludedFiles S @ concat (map (fileListEntries env) FEs)\<rparr>"
    and "Ok \<Longrightarrow> FE \<in> set FEs \<Longrightarrow> diskFileNode env FE \<noteq> None"
proof -
  have "extendsFileList env S S1 \<and> (\<not> Ok \<longrightarrow> ErrorToReport S1 \<noteq> None) \<and>
        (Ok \<longrightarrow> S1 = S\<lparr>IncludedFiles := IncludedFiles S @ concat (map (fileListEntries env) FEs)\<rparr>
              \<and> (\<forall>FE \<in> set FEs. diskFileNode env FE \<noteq> None))"
    using assms
  proof (induction FEs arbitrary: S)
    case Nil
    then show ?case by (simp add: extendsFileList_refl)
  next
    case (Cons F Rest)
    then obtain S0 R where a: "addToFileList env S F = Done (S0, R)"
      by (auto split: outcome.splits)
    note x = addToFileList_extends[OF a]
    show ?case
    proof (cases R)
      case (Inl E)
      then obtain S2 where b: "assignErrorToReport S0 E = Done S2" and r: "S1 = S2" "\<not> Ok"
        using Cons.prems a by (auto split: outcome.splits)
      show ?thesis
        using extendsFileList_error[OF x b] assignErrorToReport_Done(2)[OF b] r by simp
    next
      case (Inr N)
      then have r: "addNotSeenIncludes env S0 Rest = Done (S1, Ok)"
        using Cons.prems a by simp
      note e = addToFileList_entries[OF a[unfolded Inr]]
      from Cons.IH[OF r] show ?thesis
        using x e extendsFileList_trans[OF x] by auto
    qed
  qed
  then show "extendsFileList env S S1"
    and "\<not> Ok \<Longrightarrow> ErrorToReport S1 \<noteq> None"
    and "Ok \<Longrightarrow> S1 = S\<lparr>IncludedFiles := IncludedFiles S @ concat (map (fileListEntries env) FEs)\<rparr>"
    and "Ok \<Longrightarrow> FE \<in> set FEs \<Longrightarrow> diskFileNode env FE \<noteq> None"
    by auto
qed

lemma finalizePCH_result:
  assumes "finalizePCH env CI S = Done S'"
  shows "extendsFileList env S S'"
    and "ErrorToReport S' = None \<Longrightarrow>
           IncludedFiles S' = IncludedFiles S @
             concat (map (fileListEntries env)
               (sortNotSeenIncludes (SeenIncludeFiles S) (getIncludedFiles CI)))"
    and "ErrorToReport S' = None \<Longrightarrow>
           FE \<in> set (sortNotSeenIncludes (SeenIncludeFiles S) (getIncludedFiles CI)) \<Longrightarrow>
           diskFileNode env FE \<noteq> None"
proof -
  let ?FEs = "sortNotSeenIncludes (SeenIncludeFiles S) (getIncludedFiles CI)"
  obtain S1 Ok where a: "addNotSeenIncludes env S ?FEs = Done (S1, Ok)"
    using assms by (auto simp: finalizePCH_def split: outcome.splits)
  note r = addNotSeenIncludes_result[OF a]
  have "extendsFileList env S S' \<and>
        (ErrorToReport S' = None \<longrightarrow>
           IncludedFiles S' = IncludedFiles S @ concat (map (fileListEntries env) ?FEs) \<and>
           (\<forall>FE \<in> set ?FEs. diskFileNode env FE \<noteq> None))"
  proof (cases Ok)
    case False
    then have "S' = S1" using assms a by (simp add: finalizePCH_def)
    then show ?thesis using r(1) r(2) False by auto
  next
    case True
    then have s1: "S1 = S\<lparr>IncludedFiles := IncludedFiles S @ concat (map (fileListEntries env) ?FEs)\<rparr>"
      and d: "\<forall>FE \<in> set ?FEs. diskFileNode env FE \<noteq> None"
      using r(3) r(4) by blast+
    show ?thesis
    proof (cases "getObjectRefForFileContent env (ImplicitPCHInclude CI)")
      case (Inl EC)
      then have b: "assignErrorToReport S1 (errorCodeToError EC) = Done S'"
        using assms a True by (simp add: finalizePCH_def)
      show ?thesis
        using extendsFileList_error[OF r(1) b] assignErrorToReport_Done(2)[OF b] by simp
    next
      case (Inr Found)
      then obtain Ref where "S' = S1\<lparr>PCHRef := Some Ref\<rparr>"
        using assms a True by (cases Found) (auto simp: finalizePCH_def)
      then show ?thesis
        using s1 d extendsFileList_PCHRef[OF r(1)] by auto
    qed
  qed
  then show "extendsFileList env S S'"
    and "ErrorToReport S' = None \<Longrightarrow>
           IncludedFiles S' = IncludedFiles S @ concat (map (fileListEntries env) ?FEs)"
    and "ErrorToReport S' = None \<Longrightarrow> FE \<in> set ?FEs \<Longrightarrow> diskFileNode env FE \<noteq> None"
    by auto
qed

text \<open>
  \<open>finalize\<close> in two steps: the files named by the options, then, with a precompiled
  header, the files that were not seen.
\<close>

lemma finalize_steps:
  assumes "finalize env CI S = Done S'"
  shows "\<exists>S2. extendsFileList env S S2 \<and>
              (S' = S2 \<or> (ImplicitPCHInclude CI \<noteq> [] \<and> finalizePCH env CI S2 = Done S')) \<and>
              (ImplicitPCHInclude CI \<noteq> [] \<and> ErrorToReport S' = None \<longrightarrow>
                 finalizePCH env CI S2 = Done S')"
proof -
  obtain S1 Ok where a: "addNoSanitizeFiles env S (NoSanitizeFiles CI) = Done (S1, Ok)"
    using assms by (auto simp: finalize_def split: outcome.splits)
  note x1 = addNoSanitizeFiles_extends[OF a]
  show ?thesis
  proof (cases Ok)
    case False
    then have "S' = S1" using assms a by (simp add: finalize_def)
    then show ?thesis using x1 False by auto
  next
    case True
    then obtain S2 where b: "addSDKSettings env S1 (Sysroot CI) = Done S2"
      using assms a by (auto simp: finalize_def split: outcome.splits)
    have x2: "extendsFileList env S S2"
      using x1 addSDKSettings_extends[OF b] extendsFileList_trans by blast
    have "if ImplicitPCHInclude CI = [] then S' = S2 else finalizePCH env CI S2 = Done S'"
      using assms a b True by (auto simp: finalize_def split: if_splits)
    then show ?thesis using x2 by (auto split: if_splits)
  qed
qed

lemma finalize_extends:
  assumes "finalize env CI S = Done S'"
  shows "extendsFileList env S S'"
  using finalize_steps[OF assms] finalizePCH_result(1) extendsFileList_trans by blast


section \<open>The caches and the file list during a scan\<close>

lemma getObjectForFile_caches_result:
  assumes "getPredefinesFileID env \<noteq> FID"
    and "OrigEntry (getSLocEntry_getFile env FID) = Some FE"
    and "getObjectForFile env S FID = Done (S1, Inr Ref)"
  shows "ObjectForFile S1 FE = Some Ref"
  using assms(3) assms(1,2) unfolding getObjectForFile_disk[OF assms(1)]
  by (auto split: option.splits outcome.splits sum.splits prod.splits)

lemma getObjectForFile_memoizes_result:
  assumes "getPredefinesFileID env = FID"
    and "getObjectForFile env S FID = Done (S1, Inr Ref)"
  shows "PredefinesBufferRef S1 = Some Ref"
  using assms(2) unfolding getObjectForFile_predefines[OF assms(1)]
  by (auto split: option.splits outcome.splits sum.splits)

lemma getObjectForFile_predefines_same:
  assumes "getPredefinesFileID env = FID"
    and "getObjectForFile env S FID = Done (S1, R)"
  shows "IncludedFiles S1 = IncludedFiles S" "SeenIncludeFiles S1 = SeenIncludeFiles S"
    "ObjectForFile S1 = ObjectForFile S"
  using assms(2) unfolding getObjectForFile_predefines[OF assms(1)]
  by (auto split: option.splits outcome.splits sum.splits)

lemma getObjectForFile_extends:
  assumes "getObjectForFile env S FID = Done (S1, R)"
  shows "\<exists>New. IncludedFiles S1 = IncludedFiles S @ New \<and>
               (\<forall>Entry \<in> set New. \<exists>FE. entryOfFile env FE Entry)"
  using getObjectForFile_Done[OF assms]
proof (elim disjE exE conjE)
  assume "S1 = S"
  then have "IncludedFiles S1 = IncludedFiles S @ []" by simp
  then show ?thesis by (intro exI[of _ "[]"]) simp
next
  fix Ref assume "S1 = S\<lparr>PredefinesBufferRef := Some Ref\<rparr>"
  then have "IncludedFiles S1 = IncludedFiles S @ []" by simp
  then show ?thesis by (intro exI[of _ "[]"]) simp
next
  fix FE E
  assume "addToFileList env
      (S\<lparr>SeenIncludeFiles := markSeen (SeenIncludeFiles S) (getUID FE)\<rparr>) FE = Done (S1, Inl E)"
  from addToFileList_frame[OF this] obtain New where
    "S1 = S\<lparr>SeenIncludeFiles := markSeen (SeenIncludeFiles S) (getUID FE)\<rparr>
            \<lparr>IncludedFiles := IncludedFiles (S\<lparr>SeenIncludeFiles :=
                markSeen (SeenIncludeFiles S) (getUID FE)\<rparr>) @ New\<rparr>"
    and e: "\<forall>Entry \<in> set New. entryOfFile env FE Entry"
    by blast
  then have "IncludedFiles S1 = IncludedFiles S @ New" by simp
  then show ?thesis using e by blast
next
  fix FE S0 Ref
  assume a: "addToFileList env
      (S\<lparr>SeenIncludeFiles := markSeen (SeenIncludeFiles S) (getUID FE)\<rparr>) FE = Done (S0, Inr Ref)"
    and s1: "S1 = S0\<lparr>ObjectForFile := (ObjectForFile S0)(FE \<mapsto> Ref)\<rparr>"
  from addToFileList_frame[OF a] obtain New where
    "S0 = S\<lparr>SeenIncludeFiles := markSeen (SeenIncludeFiles S) (getUID FE)\<rparr>
            \<lparr>IncludedFiles := IncludedFiles (S\<lparr>SeenIncludeFiles :=
                markSeen (SeenIncludeFiles S) (getUID FE)\<rparr>) @ New\<rparr>"
    and e: "\<forall>Entry \<in> set New. entryOfFile env FE Entry"
    by blast
  then have "IncludedFiles S1 = IncludedFiles S @ New" using s1 by simp
  then show ?thesis using e by blast
qed

lemma fileListFromDisk_append:
  assumes "fileListFromDisk env S"
    and "\<exists>New. IncludedFiles S1 = IncludedFiles S @ New \<and>
               (\<forall>Entry \<in> set New. \<exists>FE. entryOfFile env FE Entry)"
  shows "fileListFromDisk env S1"
  using assms by (auto simp: fileListFromDisk_def)

lemma fileListFromDisk_getObjectForFile:
  assumes "fileListFromDisk env S" and "getObjectForFile env S FID = Done (S1, R)"
  shows "fileListFromDisk env S1"
  by (rule fileListFromDisk_append[OF assms(1) getObjectForFile_extends[OF assms(2)]])

lemma keeps_refl: "keeps env S S"
  by (simp add: keeps_def)

lemma keeps_trans: "keeps env S S1 \<Longrightarrow> keeps env S1 S2 \<Longrightarrow> keeps env S S2"
  by (simp add: keeps_def)

lemma keeps_getObjectForFile:
  assumes "getObjectForFile env S FID = Done (S1, R)"
  shows "keeps env S S1"
  using getObjectForFile_keeps_caches[OF assms] fileListFromDisk_getObjectForFile[OF _ assms]
  by (simp add: keeps_def)

lemma keeps_assertTopIs:
  assumes "assertTopIs env S FID = Done S1"
  shows "keeps env S S1"
  by (rule keeps_getObjectForFile[OF assertTopIs_Done(1)[OF assms]])

lemma keeps_IncludeStack: "keeps env S (S\<lparr>IncludeStack := Stack\<rparr>)"
  by (simp add: keeps_def fileListFromDisk_def)

lemma keeps_ErrorToReport: "keeps env S (S\<lparr>ErrorToReport := Err\<rparr>)"
  by (simp add: keeps_def fileListFromDisk_def)

lemma keeps_handleEvent:
  assumes "handleEvent env S Ev = Done S'"
  shows "keeps env S S'"
proof (cases "ErrorToReport S")
  case (Some E)
  then show ?thesis using assms by (simp add: handleEvent_after_error keeps_refl)
next
  case None
  then have n: "\<not> hasErrorOccurred S" by (simp add: hasErrorOccurred_def)
  show ?thesis
  proof (cases Ev)
    case (Entered FID)
    then obtain S1 R where g: "getObjectForFile env S FID = Done (S1, R)"
      using assms n by (auto simp: enteredInclude_def split: outcome.splits)
    have "keeps env S1 S'"
      using assms n g Entered keeps_IncludeStack keeps_ErrorToReport
      by (cases R) (auto simp: enteredInclude_def)
    then show ?thesis using keeps_getObjectForFile[OF g] keeps_trans by blast
  next
    case (Exited IncludedBy Incl ExitLoc)
    then have x: "exitedInclude env S IncludedBy Incl ExitLoc = Done S'"
      using assms by simp
    obtain S1 where a1: "assertTopIs env S Incl = Done S1"
      using x n by (auto simp: exitedInclude_def split: outcome.splits)
    define S2 where "S2 = S1\<lparr>IncludeStack := butlast (IncludeStack S1)\<rparr>"
    have k2: "keeps env S S2"
      unfolding S2_def using keeps_assertTopIs[OF a1] keeps_IncludeStack keeps_trans by blast
    show ?thesis
    proof (cases "getCASTreeForFileIncludes env (last (IncludeStack S1))")
      case (Inl E)
      then have "S' = S2\<lparr>ErrorToReport := Some E\<rparr>"
        using x n a1 by (simp add: exitedInclude_def Let_def S2_def)
      then show ?thesis using k2 keeps_ErrorToReport keeps_trans by blast
    next
      case (Inr Tree)
      then obtain S3 where a3: "assertTopIs env S2 IncludedBy = Done S3"
        using x n a1 by (auto simp: exitedInclude_def Let_def S2_def split: outcome.splits)
      have "\<exists>Stack. S' = S3\<lparr>IncludeStack := Stack\<rparr>"
        using x n a1 a3 Inr by (auto simp: exitedInclude_def Let_def S2_def)
      then have "keeps env S3 S'" using keeps_IncludeStack by blast
      then show ?thesis using k2 keeps_assertTopIs[OF a3] keeps_trans by blast
    qed
  next
    case (HasIncludeCheck Result)
    then have "\<exists>Stack. S' = S\<lparr>IncludeStack := Stack\<rparr>"
      using assms n by (auto simp: handleHasIncludeCheck_def split: if_splits)
    then show ?thesis using keeps_IncludeStack by blast
  qed
qed

lemma keeps_handleEvents:
  assumes "handleEvents env S Es = Done S'"
  shows "keeps env S S'"
  using assms
proof (induction Es arbitrary: S)
  case Nil
  then show ?case by (simp add: keeps_refl)
next
  case (Cons Ev Es)
  then obtain S1 where "handleEvent env S Ev = Done S1" "handleEvents env S1 Es = Done S'"
    by (auto split: outcome.splits)
  then show ?case using Cons.IH keeps_handleEvent keeps_trans by blast
qed

lemma fileListFromDisk_newConsumer: "fileListFromDisk env newConsumer"
  by (simp add: fileListFromDisk_def newConsumer_def)

lemma fileListFromDisk_extends:
  assumes "fileListFromDisk env S" and "extendsFileList env S S1"
  shows "fileListFromDisk env S1"
  using assms by (auto simp: fileListFromDisk_def extendsFileList_def)

text \<open>The seen bits of a scan belong to resolved files.\<close>

lemma markSeen_nth:
  assumes "V < length (markSeen Seen U)" and "markSeen Seen U ! V"
  shows "V = U \<or> (V < length Seen \<and> Seen ! V)"
proof (cases "U \<ge> length Seen")
  case False
  then show ?thesis
    using assms by (cases "V = U") (simp_all add: markSeen_def)
next
  case True
  let ?Grown = "Seen @ replicate (U + 1 - length Seen) False"
  have m: "markSeen Seen U = ?Grown[U := True]"
    using True by (simp add: markSeen_def)
  show ?thesis
  proof (cases "V = U")
    case True
    then show ?thesis by simp
  next
    case False
    then have v: "?Grown ! V" using assms(2) m by simp
    have l: "V < length ?Grown" using assms(1) m by simp
    show ?thesis
    proof (cases "V < length Seen")
      case True
      then show ?thesis using v by (simp add: nth_append)
    next
      case False
      then have "V - length Seen < U + 1 - length Seen" using l by simp
      then have "\<not> ?Grown ! V" using False by (simp add: nth_append)
      then show ?thesis using v by simp
    qed
  qed
qed

lemma seenAreResolved_getObjectForFile:
  assumes "seenAreResolved S" and "ErrorToReport S = None"
    and "getObjectForFile env S FID = Done (S1, Inr Ref)"
  shows "seenAreResolved S1"
proof -
  have inv: "\<And>U. U < length (SeenIncludeFiles S) \<Longrightarrow> SeenIncludeFiles S ! U \<Longrightarrow>
               \<exists>FE. getUID FE = U \<and> ObjectForFile S FE \<noteq> None"
    using assms(1,2) by (simp add: seenAreResolved_def)
  from getObjectForFile_Done[OF assms(3)] show ?thesis
  proof (elim disjE exE conjE)
    assume "S1 = S"
    then show ?thesis using assms(1) by simp
  next
    fix Ref' assume "S1 = S\<lparr>PredefinesBufferRef := Some Ref'\<rparr>"
    then show ?thesis using assms(1) by (simp add: seenAreResolved_def)
  next
    fix E :: Error assume "Inr Ref = Inl E"
    then show ?thesis by simp
  next
    fix FE S0 Ref'
    assume a: "addToFileList env
        (S\<lparr>SeenIncludeFiles := markSeen (SeenIncludeFiles S) (getUID FE)\<rparr>) FE = Done (S0, Inr Ref')"
      and s1: "S1 = S0\<lparr>ObjectForFile := (ObjectForFile S0)(FE \<mapsto> Ref')\<rparr>"
    note same = addToFileList_same[OF a]
    have seen1: "SeenIncludeFiles S1 = markSeen (SeenIncludeFiles S) (getUID FE)"
      and cache1: "ObjectForFile S1 = (ObjectForFile S)(FE \<mapsto> Ref')"
      using same s1 by simp_all
    have "\<exists>FE'. getUID FE' = U \<and> ObjectForFile S1 FE' \<noteq> None"
      if u: "U < length (SeenIncludeFiles S1)" "SeenIncludeFiles S1 ! U" for U
    proof -
      from markSeen_nth[OF u[unfolded seen1]] show ?thesis
      proof
        assume "U = getUID FE"
        then show ?thesis using cache1 by auto
      next
        assume "U < length (SeenIncludeFiles S) \<and> SeenIncludeFiles S ! U"
        then obtain FE' where "getUID FE' = U" "ObjectForFile S FE' \<noteq> None"
          using inv by blast
        then show ?thesis using cache1 by auto
      qed
    qed
    then show ?thesis by (simp add: seenAreResolved_def)
  qed
qed

lemma seenAreResolved_IncludeStack [simp]:
  "seenAreResolved (S\<lparr>IncludeStack := Stack\<rparr>) = seenAreResolved S"
  by (simp add: seenAreResolved_def)

lemma seenAreResolved_error [simp]: "seenAreResolved (S\<lparr>ErrorToReport := Some E\<rparr>)"
  by (simp add: seenAreResolved_def)

lemma seenAreResolved_handleEvent:
  assumes "seenAreResolved S" and "handleEvent env S Ev = Done S'"
  shows "seenAreResolved S'"
proof (cases "ErrorToReport S")
  case (Some E)
  then show ?thesis using assms by (simp add: handleEvent_after_error)
next
  case None
  then have n: "\<not> hasErrorOccurred S" by (simp add: hasErrorOccurred_def)
  show ?thesis
  proof (cases Ev)
    case (Entered FID)
    then obtain S1 R where g: "getObjectForFile env S FID = Done (S1, R)"
      using assms(2) n by (auto simp: enteredInclude_def split: outcome.splits)
    show ?thesis
    proof (cases R)
      case (Inl E)
      then show ?thesis using assms(2) n g Entered by (auto simp: enteredInclude_def)
    next
      case (Inr Ref)
      then have "seenAreResolved S1"
        using seenAreResolved_getObjectForFile[OF assms(1) None] g by simp
      then show ?thesis using assms(2) n g Entered Inr by (auto simp: enteredInclude_def)
    qed
  next
    case (Exited IncludedBy Incl ExitLoc)
    then have x: "exitedInclude env S IncludedBy Incl ExitLoc = Done S'"
      using assms(2) by simp
    obtain S1 where a1: "assertTopIs env S Incl = Done S1"
      using x n by (auto simp: exitedInclude_def split: outcome.splits)
    have r1: "seenAreResolved S1"
      by (rule seenAreResolved_getObjectForFile[OF assms(1) None assertTopIs_Done(1)[OF a1]])
    have e1: "ErrorToReport S1 = None"
      using getObjectForFile_same(2)[OF assertTopIs_Done(1)[OF a1]] None by simp
    show ?thesis
    proof (cases "getCASTreeForFileIncludes env (last (IncludeStack S1))")
      case (Inl E)
      then have "S' = S1\<lparr>IncludeStack := butlast (IncludeStack S1), ErrorToReport := Some E\<rparr>"
        using x n a1 by (simp add: exitedInclude_def Let_def)
      then show ?thesis by simp
    next
      case (Inr Tree)
      then obtain S3 where a3:
        "assertTopIs env (S1\<lparr>IncludeStack := butlast (IncludeStack S1)\<rparr>) IncludedBy = Done S3"
        using x n a1 by (auto simp: exitedInclude_def Let_def split: outcome.splits)
      have "seenAreResolved S3"
        using seenAreResolved_getObjectForFile[OF _ _ assertTopIs_Done(1)[OF a3]] r1 e1 by simp
      then show ?thesis
        using x n a1 a3 Inr by (auto simp: exitedInclude_def Let_def)
    qed
  next
    case (HasIncludeCheck Result)
    then show ?thesis
      using assms n by (auto simp: handleHasIncludeCheck_def split: if_splits)
  qed
qed

lemma seenAreResolved_handleEvents:
  assumes "seenAreResolved S" and "handleEvents env S Es = Done S'"
  shows "seenAreResolved S'"
  using assms
proof (induction Es arbitrary: S)
  case Nil
  then show ?case by simp
next
  case (Cons Ev Es)
  then obtain S1 where "handleEvent env S Ev = Done S1" "handleEvents env S1 Es = Done S'"
    by (auto split: outcome.splits)
  then show ?case using Cons.IH Cons.prems(1) seenAreResolved_handleEvent by blast
qed

lemma seenAreResolved_newConsumer: "seenAreResolved newConsumer"
  by (simp add: seenAreResolved_def newConsumer_def)

lemma notSeen_if_unresolved:
  assumes "handleEvents env newConsumer Es = Done S" and "ErrorToReport S = None"
    and "\<forall>FE'. ObjectForFile S FE' \<noteq> None \<longrightarrow> getUID FE' \<noteq> getUID FE"
  shows "notSeen (SeenIncludeFiles S) FE"
proof (rule ccontr)
  assume "\<not> notSeen (SeenIncludeFiles S) FE"
  then have b: "getUID FE < length (SeenIncludeFiles S)" "SeenIncludeFiles S ! getUID FE"
    by (simp_all add: notSeen_def)
  have "seenAreResolved S"
    by (rule seenAreResolved_handleEvents[OF seenAreResolved_newConsumer assms(1)])
  then obtain FE' where "getUID FE' = getUID FE" "ObjectForFile S FE' \<noteq> None"
    using assms(2) b unfolding seenAreResolved_def by blast
  then show False using assms(3) by blast
qed


section \<open>The include tree of a scan\<close>

lemmas example_defs =
  exampleEnv_def failingStoreEnv_def exampleFileInfo_def exampleBody_def noPCH_def withPCH_def
  mainFE_def aFE_def bFE_def goneFE_def pFE_def qFE_def
  newConsumer_def consumerAfter_def Tool_getIncludeTree_def
  enteredInclude_def exitedInclude_def handleHasIncludeCheck_def hasErrorOccurred_def
  assertTopIs_def getObjectForFile_def getObjectForFileNonCached_def getObjectForBuffer_def
  addToFileList_def addToFileList_addFile_def markSeen_def getCASTreeForFileIncludes_def
  getIncludeTree_def finalize_def finalizePCH_def finalize_addFile_def addSDKSettings_def
  assignErrorToReport_def missingNoSanitizeFile_def unreadableEnv_def
  sortNotSeenIncludes_def notSeen_def
  treeNode_def fileNodeOf_def diskFileNode_def bufferFileNode_def fileListEntries_def
  hasOtherPath_def Let_def

text \<open>
  C1.  Take a scan up to a state whose top frame is \<open>Top\<close>, and then the events of a
  balanced sequence \<open>Body\<close> of probes and inclusions, with no error recorded at the end.
  Every exit has removed the top frame, made it a node and appended the node with the
  offset of the exit to the frame below (\<open>childrenOf\<close>), so that \<open>Top\<close> has gained the
  children of \<open>Body\<close> and, in order, the probes made while it was on top
  (\<open>probesOf\<close>), and the frames below are unchanged.  When \<open>Top\<close> is the only frame,
  the root that \<open>getIncludeTree\<close> returns after \<open>finalize\<close> is made of the node of
  \<open>Top\<close>, of the file list and of the reference to the precompiled header.
\<close>

theorem C1_balanced_events_build_the_tree:
  assumes "handleEvents env newConsumer Pre = Done S"
    and "IncludeStack S = Below @ [Top]"
    and "handleEvents env S (eventsOf Parent Body) = Done S'"
    and "ErrorToReport S' = None"
  shows "\<exists>Children.
           childrenOf env Body = Some Children \<and>
           IncludeStack S' =
             Below @ [Top\<lparr>Includes := Includes Top @ Children,
                         HasIncludeChecks := HasIncludeChecks Top @ probesOf Body\<rparr>] \<and>
           (\<forall>CI S3 S4 Root.
              Below = [] \<and> finalize env CI S' = Done S3 \<and>
              getIncludeTree env S3 = Done (S4, Inr Root) \<longrightarrow>
              (\<exists>MainTree FileList.
                 IncludeTree_create env (FileCharacteristic Top) (File Top)
                   (Includes Top @ Children) (HasIncludeChecks Top @ probesOf Body) = Inr MainTree \<and>
                 IncludeFileList_create env (IncludedFiles S3) = Inr FileList \<and>
                 IncludeTreeRoot_create env MainTree FileList (PCHRef S3) = Inr Root))"
proof -
  have c: "coherent env S"
    by (rule handleEvents_coherent[OF coherent_newConsumer assms(1)])
  from eventsOf_effect[OF c assms(2) assms(3) assms(4)] obtain Children where
    ch: "childrenOf env Body = Some Children"
    and st: "IncludeStack S' =
               Below @ [Top\<lparr>Includes := Includes Top @ Children,
                           HasIncludeChecks := HasIncludeChecks Top @ probesOf Body\<rparr>]"
    by blast
  have root: "\<exists>MainTree FileList.
                 IncludeTree_create env (FileCharacteristic Top) (File Top)
                   (Includes Top @ Children) (HasIncludeChecks Top @ probesOf Body) = Inr MainTree \<and>
                 IncludeFileList_create env (IncludedFiles S3) = Inr FileList \<and>
                 IncludeTreeRoot_create env MainTree FileList (PCHRef S3) = Inr Root"
    if "Below = []" and f: "finalize env CI S' = Done S3"
      and g: "getIncludeTree env S3 = Done (S4, Inr Root)" for CI S3 S4 Root
  proof -
    have "IncludeStack S3 = IncludeStack S'"
      using finalize_extends[OF f] by (simp add: extendsFileList_def)
    then have st3: "IncludeStack S3 =
        [Top\<lparr>Includes := Includes Top @ Children,
             HasIncludeChecks := HasIncludeChecks Top @ probesOf Body\<rparr>]"
      using st that(1) by simp
    have e3: "ErrorToReport S3 = None"
      using g by (cases "ErrorToReport S3") (auto simp: getIncludeTree_def)
    show ?thesis
      using g e3 st3
      by (auto simp: getIncludeTree_def Let_def getCASTreeForFileIncludes_def split: sum.splits)
  qed
  show ?thesis using ch st root by blast
qed

text \<open>
  The example of the specification: the main file includes \<^verbatim>\<open>a.h\<close> at offset 120,
  which includes \<^verbatim>\<open>b.h\<close> at offset 40; the main file probes once (\<open>True\<close>) and
  \<^verbatim>\<open>a.h\<close> twice (\<open>False\<close>, then \<open>True\<close> after \<^verbatim>\<open>b.h\<close>).
\<close>

theorem C1_balanced_events_build_the_tree_witness:
  "childrenOf exampleEnv exampleBody =
     Some [(IncludeTreeNode C_System (IncludeFileNode ''a.h'' (Blob ''content of a.h''))
              [(IncludeTreeNode C_System (IncludeFileNode ''b.h'' (Blob ''content of b.h'')) [] [],
                40)]
              [False, True],
            120)]
   \<and> IncludeStack (consumerAfter exampleEnv (Entered 1 # eventsOf 1 exampleBody)) =
       [\<lparr> FileCharacteristic = C_User,
          File = IncludeFileNode ''main.c'' (Blob ''content of main.c''),
          Includes =
            [(IncludeTreeNode C_System (IncludeFileNode ''a.h'' (Blob ''content of a.h''))
                [(IncludeTreeNode C_System (IncludeFileNode ''b.h'' (Blob ''content of b.h'')) [] [],
                  40)]
                [False, True],
              120)],
          HasIncludeChecks = [True] \<rparr>]
   \<and> Tool_getIncludeTree exampleEnv (Entered 1 # eventsOf 1 exampleBody) noPCH None =
       Done (Inr (IncludeTreeRootNode
         (IncludeTreeNode C_User (IncludeFileNode ''main.c'' (Blob ''content of main.c''))
            [(IncludeTreeNode C_System (IncludeFileNode ''a.h'' (Blob ''content of a.h''))
                [(IncludeTreeNode C_System (IncludeFileNode ''b.h'' (Blob ''content of b.h'')) [] [],
                  40)]
                [False, True],
              120)]
            [True])
         (IncludeFileListNode
            [(IncludeFileNode ''main.c'' (Blob ''content of main.c''), 300),
             (IncludeFileNode ''/real/a.h'' (Blob ''content of a.h''), 100),
             (IncludeFileNode ''a.h'' (Blob ''content of a.h''), 100),
             (IncludeFileNode ''b.h'' (Blob ''content of b.h''), 50)])
         None))"
proof -
  let ?S = "consumerAfter exampleEnv [Entered 1]"
  let ?S' = "consumerAfter exampleEnv (Entered 1 # eventsOf 1 exampleBody)"
  let ?Top = "\<lparr> FileCharacteristic = C_User,
                 File = IncludeFileNode ''main.c'' (Blob ''content of main.c''),
                 Includes = [], HasIncludeChecks = [] \<rparr>"
  have h1: "handleEvents exampleEnv newConsumer [Entered 1] = Done ?S"
    by (simp add: example_defs)
  have h2: "IncludeStack ?S = [] @ [?Top]"
    by (simp add: example_defs)
  have h3: "handleEvents exampleEnv ?S (eventsOf 1 exampleBody) = Done ?S'"
    by (simp add: example_defs)
  have h4: "ErrorToReport ?S' = None"
    by (simp add: example_defs)
  from C1_balanced_events_build_the_tree[OF h1 h2 h3 h4] obtain Children where
    ch: "childrenOf exampleEnv exampleBody = Some Children"
    and st: "IncludeStack ?S' =
               [] @ [?Top\<lparr>Includes := Includes ?Top @ Children,
                          HasIncludeChecks := HasIncludeChecks ?Top @ probesOf exampleBody\<rparr>]"
    by blast
  have ev: "childrenOf exampleEnv exampleBody =
     Some [(IncludeTreeNode C_System (IncludeFileNode ''a.h'' (Blob ''content of a.h''))
              [(IncludeTreeNode C_System (IncludeFileNode ''b.h'' (Blob ''content of b.h'')) [] [],
                40)]
              [False, True],
            120)]"
    by (simp add: example_defs)
  have tool: "Tool_getIncludeTree exampleEnv (Entered 1 # eventsOf 1 exampleBody) noPCH None =
       Done (Inr (IncludeTreeRootNode
         (IncludeTreeNode C_User (IncludeFileNode ''main.c'' (Blob ''content of main.c''))
            [(IncludeTreeNode C_System (IncludeFileNode ''a.h'' (Blob ''content of a.h''))
                [(IncludeTreeNode C_System (IncludeFileNode ''b.h'' (Blob ''content of b.h'')) [] [],
                  40)]
                [False, True],
              120)]
            [True])
         (IncludeFileListNode
            [(IncludeFileNode ''main.c'' (Blob ''content of main.c''), 300),
             (IncludeFileNode ''/real/a.h'' (Blob ''content of a.h''), 100),
             (IncludeFileNode ''a.h'' (Blob ''content of a.h''), 100),
             (IncludeFileNode ''b.h'' (Blob ''content of b.h''), 50)])
         None))"
    by (simp add: example_defs)
  have "Children =
     [(IncludeTreeNode C_System (IncludeFileNode ''a.h'' (Blob ''content of a.h''))
              [(IncludeTreeNode C_System (IncludeFileNode ''b.h'' (Blob ''content of b.h'')) [] [],
                40)]
              [False, True],
            120)]"
    using ch ev by simp
  then show ?thesis
    using ev st tool by (simp add: exampleBody_def)
qed


section \<open>A failure in the middle of a scan\<close>

lemma getIncludeTree_after_error:
  assumes "ErrorToReport S = Some E"
  shows "getIncludeTree env S = Done (S, Inl E)"
  using assms by (simp add: getIncludeTree_def)

lemma finalize_keeps_error:
  assumes "ErrorToReport S = Some E" and "finalize env CI S = Done S'"
  shows "ErrorToReport S' = Some E"
  using finalize_extends[OF assms(2)] assms(1) by (simp add: extendsFileList_def)

text \<open>
  The events and \<open>getIncludeTree\<close> keep the first failure.  When an event of a scan
  records a first failure \<open>E\<close> (as \<open>Entered\<close> does when the file cannot be resolved),
  whatever events follow leave the consumer as the failing event left it,
  \<open>getIncludeTree\<close> returns \<open>E\<close>, and the whole scan, when it returns, returns \<open>E\<close>.
\<close>

lemma first_failure_is_kept_by_events:
  assumes "handleEvents env newConsumer Pre = Done S"
    and "ErrorToReport S = None"
    and "handleEvent env S Ev = Done S1"
    and "ErrorToReport S1 = Some E"
  shows "handleEvents env newConsumer (Pre @ Ev # Post) = Done S1"
    and "getIncludeTree env S1 = Done (S1, Inl E)"
    and "Tool_getIncludeTree env (Pre @ Ev # Post) CI WorkerResult = AssertionFailure \<or>
         Tool_getIncludeTree env (Pre @ Ev # Post) CI WorkerResult = Done (Inl E)"
    and "getObjectForFile env S FID = Done (S', Inl E') \<Longrightarrow>
           handleEvent env S (Entered FID) = Done (S'\<lparr>ErrorToReport := Some E'\<rparr>)"
proof -
  show run: "handleEvents env newConsumer (Pre @ Ev # Post) = Done S1"
    using assms(1,3) handleEvents_after_error[OF assms(4)]
    by (simp add: handleEvents_append)
  show "getIncludeTree env S1 = Done (S1, Inl E)"
    by (rule getIncludeTree_after_error[OF assms(4)])
  show "Tool_getIncludeTree env (Pre @ Ev # Post) CI WorkerResult = AssertionFailure \<or>
         Tool_getIncludeTree env (Pre @ Ev # Post) CI WorkerResult = Done (Inl E)"
  proof (cases "finalize env CI S1")
    case AssertionFailure
    then show ?thesis by (simp add: Tool_getIncludeTree_def run)
  next
    case (Done S2)
    then have e2: "ErrorToReport S2 = Some E"
      using finalize_keeps_error[OF assms(4)] by blast
    then have "getIncludeTree env S2 = Done (S2, Inl E)"
      by (rule getIncludeTree_after_error)
    then show ?thesis
      using Done e2
      by (simp add: Tool_getIncludeTree_def run hasErrorOccurred_def split: option.splits)
  qed
  show "handleEvent env S (Entered FID) = Done (S'\<lparr>ErrorToReport := Some E'\<rparr>)"
    if "getObjectForFile env S FID = Done (S', Inl E')"
    using that assms(2) by (simp add: enteredInclude_def hasErrorOccurred_def)
qed

text \<open>
  C3.  The handlers of the three events test \<^verbatim>\<open>hasErrorOccurred()\<close> first;
  \<^verbatim>\<open>finalize\<close> does not, goes on adding files after a failure, and assigns a second
  failure over the first.  The main file includes \<^verbatim>\<open>gone.h\<close>, whose content cannot
  be read: the failure is recorded and \<open>getIncludeTree\<close> would return it.  With
  options that name a file the file manager cannot find, \<^verbatim>\<open>finalize\<close> then assigns
  over the unread error, which fails the assertion: the scan returns nothing, where it
  returns the first failure with options that name no such file.
\<close>

theorem C3_second_failure_in_finalize:
  "ErrorToReport (consumerAfter exampleEnv [Entered 1, Entered 4]) = Some (errorCodeToError 2)
   \<and> handleEvents exampleEnv (consumerAfter exampleEnv [Entered 1, Entered 4])
       [HasIncludeCheck True, Entered 3, Exited 1 3 1040]
     = Done (consumerAfter exampleEnv [Entered 1, Entered 4])
   \<and> getIncludeTree exampleEnv (consumerAfter exampleEnv [Entered 1, Entered 4])
     = Done (consumerAfter exampleEnv [Entered 1, Entered 4], Inl (errorCodeToError 2))
   \<and> Tool_getIncludeTree exampleEnv [Entered 1, Entered 4] noPCH None
     = Done (Inl (errorCodeToError 2))
   \<and> finalize exampleEnv missingNoSanitizeFile (consumerAfter exampleEnv [Entered 1, Entered 4])
     = AssertionFailure
   \<and> Tool_getIncludeTree exampleEnv [Entered 1, Entered 4] missingNoSanitizeFile None
     = AssertionFailure"
  by (simp add: example_defs)


section \<open>The files of a precompiled header\<close>

lemma sortNotSeenIncludes_sorted:
  "sorted (map getUID (sortNotSeenIncludes Seen Included))"
  by (simp add: sortNotSeenIncludes_def)

lemma sortNotSeenIncludes_set:
  "set (sortNotSeenIncludes Seen Included) = {FE \<in> set Included. notSeen Seen FE}"
  by (simp add: sortNotSeenIncludes_def)

text \<open>With distinct identifiers, the sorted list does not depend on the order of enumeration.\<close>

lemma sortNotSeenIncludes_order:
  assumes "distinct (map getUID Included)" and "distinct (map getUID Included')"
    and "set Included' = set Included"
  shows "sortNotSeenIncludes Seen Included' = sortNotSeenIncludes Seen Included"
proof -
  let ?xs = "filter (notSeen Seen) Included'" and ?ys = "filter (notSeen Seen) Included"
  have d: "distinct Included" "distinct Included'"
    using assms(1,2) by (simp_all add: distinct_map)
  then have "mset Included' = mset Included"
    using assms(3) by (simp add: set_eq_iff_mset_eq_distinct)
  then have "mset ?xs = mset ?ys"
    by (metis mset_filter)
  then have m: "mset ?xs = mset (sort_key getUID ?ys)" by simp
  have "inj_on getUID (set Included')"
    using assms(2) by (simp add: distinct_map)
  then have i: "inj_on getUID (set ?xs)"
    by (rule inj_on_subset) auto
  have "sort_key getUID ?xs = sort_key getUID ?ys"
    by (rule sort_key_inj_key_eq[OF m i]) simp
  then show ?thesis by (simp add: sortNotSeenIncludes_def)
qed

lemma finalize_order:
  assumes "distinct (map getUID (getIncludedFiles CI))" and "distinct (map getUID Included')"
    and "set Included' = set (getIncludedFiles CI)"
  shows "finalize env (CI\<lparr>getIncludedFiles := Included'\<rparr>) S = finalize env CI S"
proof -
  have "finalizePCH env (CI\<lparr>getIncludedFiles := Included'\<rparr>) T = finalizePCH env CI T" for T
    using sortNotSeenIncludes_order[OF assms]
    by (simp add: finalizePCH_def split: outcome.splits prod.splits)
  then show ?thesis
    by (simp add: finalize_def split: outcome.splits prod.splits)
qed

lemma fileListEntries_name:
  assumes "diskFileNode env FE = Some FileNode"
  shows "(FileNode, word_of_int (getSize FE)) \<in> set (fileListEntries env FE)"
  using assms
  by (auto simp: diskFileNode_def fileListEntries_def split: sum.splits option.splits)

text \<open>
  C5.  With an implicit precompiled header, when \<open>finalize\<close> returns without a recorded
  error, the file list ends with the entries of the included files whose seen bit is not
  set, file by file in ascending order of \<^verbatim>\<open>getUID\<close>; each such file has the node of
  its name in the file list; when the identifiers are distinct, an enumeration of the
  same included files in another order gives the same consumer; in a scan, the seen bit
  of a file is not set when no resolved file has its identifier; and the file list of the
  root that \<open>getIncludeTree\<close> then returns is made from this file list.
\<close>

theorem C5_pch_files_in_uid_order:
  assumes "ImplicitPCHInclude CI \<noteq> []"
    and "finalize env CI S = Done S'"
    and "ErrorToReport S' = None"
  shows "(\<exists>Explicit.
            IncludedFiles S' = IncludedFiles S @ Explicit @
              concat (map (fileListEntries env)
                (sortNotSeenIncludes (SeenIncludeFiles S) (getIncludedFiles CI))))
       \<and> sorted (map getUID (sortNotSeenIncludes (SeenIncludeFiles S) (getIncludedFiles CI)))
       \<and> set (sortNotSeenIncludes (SeenIncludeFiles S) (getIncludedFiles CI)) =
           {FE \<in> set (getIncludedFiles CI). notSeen (SeenIncludeFiles S) FE}
       \<and> (\<forall>FE \<in> set (getIncludedFiles CI). notSeen (SeenIncludeFiles S) FE \<longrightarrow>
            (\<exists>FileNode. diskFileNode env FE = Some FileNode \<and>
               (FileNode, word_of_int (getSize FE)) \<in> set (IncludedFiles S')))
       \<and> (\<forall>Included'.
            distinct (map getUID (getIncludedFiles CI)) \<and> distinct (map getUID Included') \<and>
            set Included' = set (getIncludedFiles CI) \<longrightarrow>
            finalize env (CI\<lparr>getIncludedFiles := Included'\<rparr>) S = Done S')
       \<and> (\<forall>Es FE.
            handleEvents env newConsumer Es = Done S \<and>
            (\<forall>FE'. ObjectForFile S FE' \<noteq> None \<longrightarrow> getUID FE' \<noteq> getUID FE) \<longrightarrow>
            notSeen (SeenIncludeFiles S) FE)
       \<and> (\<forall>S4 Root.
            getIncludeTree env S' = Done (S4, Inr Root) \<longrightarrow>
            (\<exists>MainTree FileList.
               IncludeFileList_create env (IncludedFiles S') = Inr FileList \<and>
               IncludeTreeRoot_create env MainTree FileList (PCHRef S') = Inr Root))"
proof -
  let ?FEs = "sortNotSeenIncludes (SeenIncludeFiles S) (getIncludedFiles CI)"
  from finalize_steps[OF assms(2)] assms(1,3) obtain S2 where
    x: "extendsFileList env S S2" and p: "finalizePCH env CI S2 = Done S'"
    by blast
  obtain Explicit where e: "IncludedFiles S2 = IncludedFiles S @ Explicit"
    and seen: "SeenIncludeFiles S2 = SeenIncludeFiles S"
    using x by (auto simp: extendsFileList_def)
  have l: "IncludedFiles S' = IncludedFiles S @ Explicit @ concat (map (fileListEntries env) ?FEs)"
    using finalizePCH_result(2)[OF p assms(3)] e seen by simp
  have added: "\<exists>FileNode. diskFileNode env FE = Some FileNode \<and>
               (FileNode, word_of_int (getSize FE)) \<in> set (IncludedFiles S')"
    if "FE \<in> set (getIncludedFiles CI)" "notSeen (SeenIncludeFiles S) FE" for FE
  proof -
    have m: "FE \<in> set ?FEs" using that by (simp add: sortNotSeenIncludes_set)
    then obtain FileNode where n: "diskFileNode env FE = Some FileNode"
      using finalizePCH_result(3)[OF p assms(3)] seen by fastforce
    have "(FileNode, word_of_int (getSize FE)) \<in> set (concat (map (fileListEntries env) ?FEs))"
      using fileListEntries_name[OF n] m by auto
    then show ?thesis using n l by auto
  qed
  have order: "finalize env (CI\<lparr>getIncludedFiles := Included'\<rparr>) S = Done S'"
    if "distinct (map getUID (getIncludedFiles CI))" "distinct (map getUID Included')"
      "set Included' = set (getIncludedFiles CI)" for Included'
    by (rule trans[OF finalize_order[OF that] assms(2)])
  have e0: "ErrorToReport S = None"
    using finalize_extends[OF assms(2)] assms(3)
    by (cases "ErrorToReport S") (auto simp: extendsFileList_def)
  have unseen: "notSeen (SeenIncludeFiles S) FE"
    if "handleEvents env newConsumer Es = Done S"
      "\<forall>FE'. ObjectForFile S FE' \<noteq> None \<longrightarrow> getUID FE' \<noteq> getUID FE" for Es FE
    by (rule notSeen_if_unresolved[OF that(1) e0 that(2)])
  have root: "\<exists>MainTree FileList.
               IncludeFileList_create env (IncludedFiles S') = Inr FileList \<and>
               IncludeTreeRoot_create env MainTree FileList (PCHRef S') = Inr Root"
    if "getIncludeTree env S' = Done (S4, Inr Root)" for S4 Root
    using that assms(3)
    by (auto simp: getIncludeTree_def Let_def split: if_splits sum.splits)
  have first: "\<exists>Explicit.
            IncludedFiles S' = IncludedFiles S @ Explicit @
              concat (map (fileListEntries env) ?FEs)"
    using l by blast
  show ?thesis
    using first added order unseen root
    by (intro conjI allI impI ballI sortNotSeenIncludes_sorted sortNotSeenIncludes_set) blast+
qed

text \<open>
  After the main file, the front end lists \<^verbatim>\<open>p.h\<close> (identifier 5), the main file
  (seen) and \<^verbatim>\<open>q.h\<close> (identifier 4): \<^verbatim>\<open>q.h\<close> is added before \<^verbatim>\<open>p.h\<close>,
  also when the front end lists them the other way round.
\<close>

theorem C5_pch_files_in_uid_order_witness:
  "IncludedFiles (consumerAfter exampleEnv [Entered 1]) =
     [(IncludeFileNode ''main.c'' (Blob ''content of main.c''), 300)]
   \<and> map_outcome IncludedFiles (finalize exampleEnv withPCH (consumerAfter exampleEnv [Entered 1])) =
     Done [(IncludeFileNode ''main.c'' (Blob ''content of main.c''), 300),
           (IncludeFileNode ''q.h'' (Blob ''content of q.h''), 12),
           (IncludeFileNode ''p.h'' (Blob ''content of p.h''), 11)]
   \<and> finalize exampleEnv (withPCH\<lparr>getIncludedFiles := [qFE, pFE, mainFE]\<rparr>)
         (consumerAfter exampleEnv [Entered 1]) =
       finalize exampleEnv withPCH (consumerAfter exampleEnv [Entered 1])"
proof -
  let ?S = "consumerAfter exampleEnv [Entered 1]"
  define S' where "S' = (case finalize exampleEnv withPCH ?S of Done T \<Rightarrow> T | AssertionFailure \<Rightarrow> ?S)"
  have h1: "ImplicitPCHInclude withPCH \<noteq> []" by (simp add: withPCH_def)
  have h2: "finalize exampleEnv withPCH ?S = Done S'"
    unfolding S'_def by (simp add: example_defs)
  have h3: "ErrorToReport S' = None"
    unfolding S'_def by (simp add: example_defs)
  note c5 = C5_pch_files_in_uid_order[OF h1 h2 h3]
  have d: "distinct (map getUID (getIncludedFiles withPCH))"
    "distinct (map getUID [qFE, pFE, mainFE])"
    "set [qFE, pFE, mainFE] = set (getIncludedFiles withPCH)"
    by (auto simp: withPCH_def pFE_def qFE_def mainFE_def)
  have order: "finalize exampleEnv (withPCH\<lparr>getIncludedFiles := [qFE, pFE, mainFE]\<rparr>) ?S = Done S'"
    using c5 d by blast
  have files: "IncludedFiles ?S = [(IncludeFileNode ''main.c'' (Blob ''content of main.c''), 300)]"
    by (simp add: example_defs)
  have list: "IncludedFiles S' =
     [(IncludeFileNode ''main.c'' (Blob ''content of main.c''), 300),
      (IncludeFileNode ''q.h'' (Blob ''content of q.h''), 12),
      (IncludeFileNode ''p.h'' (Blob ''content of p.h''), 11)]"
    unfolding S'_def by (simp add: example_defs)
  show ?thesis using files list order h2 by simp
qed


section \<open>File nodes: aliases, repeated inclusions and the predefines buffer\<close>

text \<open>
  C6.  \<open>addToFileList\<close> returns the reference \<open>Ref\<close> exactly when the file manager has
  a reference to the content of the file, the store makes \<open>Ref\<close> the node of the name and
  of that reference, and: for a file with another path (a recorded real path that differs
  from the absolute path without dots), the store also makes a node of the real path and
  of the same reference, and the file list gains the two entries, real path first; for
  any other file the file list gains the one entry of the name.
\<close>

theorem C6_alias_adds_two_entries:
  "addToFileList env S FE = Done (S1, Inr Ref) \<longleftrightarrow>
     (\<exists>Contents.
        getObjectRefForFileContent env (getName FE) = Inr (Some Contents) \<and>
        getName FE \<noteq> [] \<and>
        IncludeFile_create env (getName FE) Contents = Inr Ref \<and>
        (if hasOtherPath env FE
         then \<exists>RealNode.
                IncludeFile_create env (tryGetRealPathName FE) Contents = Inr RealNode \<and>
                S1 = S\<lparr>IncludedFiles := IncludedFiles S @
                        [(RealNode, word_of_int (getSize FE)), (Ref, word_of_int (getSize FE))]\<rparr>
         else S1 = S\<lparr>IncludedFiles := IncludedFiles S @ [(Ref, word_of_int (getSize FE))]\<rparr>))"
  by (rule addToFileList_Inr)

text \<open>
  \<^verbatim>\<open>a.h\<close> has the real path \<^verbatim>\<open>/real/a.h\<close> and the absolute path
  \<^verbatim>\<open>/src/a.h\<close>: two entries with the one content.  The real path of \<^verbatim>\<open>b.h\<close> is
  its absolute path: one entry.
\<close>

theorem C6_alias_adds_two_entries_witness:
  "addToFileList exampleEnv newConsumer aFE =
     Done (newConsumer\<lparr>IncludedFiles := IncludedFiles newConsumer @
             [(IncludeFileNode ''/real/a.h'' (Blob ''content of a.h''), 100),
              (IncludeFileNode ''a.h'' (Blob ''content of a.h''), 100)]\<rparr>,
           Inr (IncludeFileNode ''a.h'' (Blob ''content of a.h'')))
   \<and> addToFileList exampleEnv newConsumer bFE =
     Done (newConsumer\<lparr>IncludedFiles := IncludedFiles newConsumer @
             [(IncludeFileNode ''b.h'' (Blob ''content of b.h''), 50)]\<rparr>,
           Inr (IncludeFileNode ''b.h'' (Blob ''content of b.h'')))"
  unfolding C6_alias_adds_two_entries
  by (simp add: exampleEnv_def aFE_def bFE_def hasOtherPath_def)

lemma getObjectForFile_first_resolution:
  assumes "getPredefinesFileID env \<noteq> FID"
    and "OrigEntry (getSLocEntry_getFile env FID) = Some FE"
    and "ObjectForFile S FE = None"
    and "getObjectForFile env S FID = Done (S1, Inr Ref)"
  shows "S1 = S\<lparr>SeenIncludeFiles := markSeen (SeenIncludeFiles S) (getUID FE),
               IncludedFiles := IncludedFiles S @ fileListEntries env FE,
               ObjectForFile := (ObjectForFile S)(FE \<mapsto> Ref)\<rparr>"
    and "diskFileNode env FE = Some Ref"
proof -
  obtain S0 where a: "addToFileList env
        (S\<lparr>SeenIncludeFiles := markSeen (SeenIncludeFiles S) (getUID FE)\<rparr>) FE = Done (S0, Inr Ref)"
    and s1: "S1 = S0\<lparr>ObjectForFile := (ObjectForFile S0)(FE \<mapsto> Ref)\<rparr>"
    using assms(4) assms(2,3) unfolding getObjectForFile_disk[OF assms(1)]
    by (auto split: outcome.splits sum.splits prod.splits)
  note e = addToFileList_entries[OF a]
  show "diskFileNode env FE = Some Ref" by (rule e(2))
  show "S1 = S\<lparr>SeenIncludeFiles := markSeen (SeenIncludeFiles S) (getUID FE),
               IncludedFiles := IncludedFiles S @ fileListEntries env FE,
               ObjectForFile := (ObjectForFile S)(FE \<mapsto> Ref)\<rparr>"
    using s1 e(1) by simp
qed

lemma getObjectForFile_first_request:
  assumes "getPredefinesFileID env = FID"
    and "PredefinesBufferRef S = None"
    and "getObjectForFile env S FID = Done (S1, Inr Ref)"
  shows "bufferFileNode env (getSLocEntry_getFile env FID) = Some Ref"
  using assms(3) assms(2) unfolding getObjectForFile_predefines[OF assms(1)]
  by (auto simp: bufferFileNode_def split: outcome.splits sum.splits)

text \<open>
  C7.  Take an \<open>Entered\<close> event for a file on disk that records no error.  If the file
  entry was not in the cache \<open>ObjectForFile\<close>, the event has resolved it: its bit is
  set, its entries are appended to the file list (the node of its name among them) and
  its node is put into the cache; if it was, the event has changed none of them.  Either
  way the node is in the frame and in the cache, it stays in the cache whatever events
  follow, and a later resolution of the same file entry (under the same or another file
  identifier) returns the cached node and leaves the consumer as it is, whatever the
  file manager and the store would answer then (\<open>env'\<close>): nothing is stored again and
  the file list gains nothing; entering the file again only pushes a frame with that node.
\<close>

theorem C7_repeated_inclusion_is_cached:
  assumes "getPredefinesFileID env \<noteq> FID1" and "getPredefinesFileID env \<noteq> FID2"
    and "OrigEntry (getSLocEntry_getFile env FID1) = Some FE"
    and "OrigEntry (getSLocEntry_getFile env FID2) = Some FE"
    and "handleEvent env S (Entered FID1) = Done S1"
    and "ErrorToReport S1 = None"
    and "handleEvents env S1 Es = Done S2"
  shows "ObjectForFile S1 FE = Some (File (last (IncludeStack S1)))
       \<and> (ObjectForFile S FE = None \<longrightarrow>
            diskFileNode env FE = Some (File (last (IncludeStack S1))) \<and>
            ObjectForFile S1 = (ObjectForFile S)(FE \<mapsto> File (last (IncludeStack S1))) \<and>
            SeenIncludeFiles S1 = markSeen (SeenIncludeFiles S) (getUID FE) \<and>
            IncludedFiles S1 = IncludedFiles S @ fileListEntries env FE \<and>
            (File (last (IncludeStack S1)), word_of_int (getSize FE))
              \<in> set (fileListEntries env FE))
       \<and> (ObjectForFile S FE \<noteq> None \<longrightarrow>
            ObjectForFile S FE = Some (File (last (IncludeStack S1))) \<and>
            ObjectForFile S1 = ObjectForFile S \<and>
            SeenIncludeFiles S1 = SeenIncludeFiles S \<and> IncludedFiles S1 = IncludedFiles S)
       \<and> ObjectForFile S2 FE = Some (File (last (IncludeStack S1)))
       \<and> (\<forall>env'. getPredefinesFileID env' \<noteq> FID2 \<and>
                 OrigEntry (getSLocEntry_getFile env' FID2) = Some FE \<longrightarrow>
                 getObjectForFile env' S2 FID2 = Done (S2, Inr (File (last (IncludeStack S1)))))
       \<and> getObjectForFile env S2 FID2 = Done (S2, Inr (File (last (IncludeStack S1))))
       \<and> (ErrorToReport S2 = None \<longrightarrow>
            handleEvent env S2 (Entered FID2) =
              Done (S2\<lparr>IncludeStack := IncludeStack S2 @
                 [\<lparr> FileCharacteristic = getFileCharacteristic (getSLocEntry_getFile env FID2),
                    File = File (last (IncludeStack S1)), Includes = [],
                    HasIncludeChecks = [] \<rparr>]\<rparr>))"
proof -
  have en: "enteredInclude env S FID1 = Done S1" using assms(5) by simp
  from enteredInclude_ok[OF en assms(6)] obtain S0 FileRef where
    g: "getObjectForFile env S FID1 = Done (S0, Inr FileRef)"
    and s1: "S1 = S0\<lparr>IncludeStack := IncludeStack S @
                [\<lparr> FileCharacteristic = getFileCharacteristic (getSLocEntry_getFile env FID1),
                   File = FileRef, Includes = [], HasIncludeChecks = [] \<rparr>]\<rparr>"
    by blast
  have top: "File (last (IncludeStack S1)) = FileRef" using s1 by simp
  have "ObjectForFile S0 FE = Some FileRef"
    by (rule getObjectForFile_caches_result[OF assms(1,3) g])
  then have c1: "ObjectForFile S1 FE = Some FileRef" using s1 by simp
  then have c2: "ObjectForFile S2 FE = Some FileRef"
    using keeps_handleEvents[OF assms(7)] by (simp add: keeps_def)
  have first: "diskFileNode env FE = Some FileRef \<and>
              ObjectForFile S1 = (ObjectForFile S)(FE \<mapsto> FileRef) \<and>
              SeenIncludeFiles S1 = markSeen (SeenIncludeFiles S) (getUID FE) \<and>
              IncludedFiles S1 = IncludedFiles S @ fileListEntries env FE \<and>
              (FileRef, word_of_int (getSize FE)) \<in> set (fileListEntries env FE)"
    if "ObjectForFile S FE = None"
  proof -
    note r = getObjectForFile_first_resolution[OF assms(1,3) that g]
    show ?thesis
      using r s1 fileListEntries_name[OF r(2)] by simp
  qed
  have again: "ObjectForFile S FE = Some FileRef \<and> ObjectForFile S1 = ObjectForFile S \<and>
              SeenIncludeFiles S1 = SeenIncludeFiles S \<and> IncludedFiles S1 = IncludedFiles S"
    if ne: "ObjectForFile S FE \<noteq> None"
  proof -
    obtain Ref0 where c: "ObjectForFile S FE = Some Ref0" using ne by blast
    have "getObjectForFile env S FID1 = Done (S, Inr Ref0)"
      by (rule getObjectForFile_cached[OF assms(1,3) c])
    then show ?thesis using g c s1 by simp
  qed
  have cached: "getObjectForFile env' S2 FID2 = Done (S2, Inr FileRef)"
    if "getPredefinesFileID env' \<noteq> FID2" "OrigEntry (getSLocEntry_getFile env' FID2) = Some FE"
    for env' :: "'a env"
    by (rule getObjectForFile_cached[OF that c2])
  have r: "getObjectForFile env S2 FID2 = Done (S2, Inr FileRef)"
    by (rule cached[OF assms(2,4)])
  have push: "handleEvent env S2 (Entered FID2) =
                Done (S2\<lparr>IncludeStack := IncludeStack S2 @
                   [\<lparr> FileCharacteristic = getFileCharacteristic (getSLocEntry_getFile env FID2),
                      File = File (last (IncludeStack S1)), Includes = [],
                      HasIncludeChecks = [] \<rparr>]\<rparr>)"
    if "ErrorToReport S2 = None"
    using r top that by (simp add: enteredInclude_def hasErrorOccurred_def)
  show ?thesis
    using c1 first again c2 cached r push unfolding top by simp
qed

text \<open>
  \<^verbatim>\<open>a.h\<close> is included by the main file, left, and included again under another
  file identifier: the first inclusion adds its two entries, the second only pushes a
  frame, also when nothing can be read or stored any more.
\<close>

theorem C7_repeated_inclusion_is_cached_witness:
  "getObjectForFile exampleEnv (consumerAfter exampleEnv [Entered 1, Entered 2, Exited 1 2 1120]) 5 =
     Done (consumerAfter exampleEnv [Entered 1, Entered 2, Exited 1 2 1120],
           Inr (IncludeFileNode ''a.h'' (Blob ''content of a.h'')))
   \<and> getObjectForFile unreadableEnv (consumerAfter exampleEnv [Entered 1, Entered 2, Exited 1 2 1120]) 5 =
     Done (consumerAfter exampleEnv [Entered 1, Entered 2, Exited 1 2 1120],
           Inr (IncludeFileNode ''a.h'' (Blob ''content of a.h'')))
   \<and> IncludedFiles (consumerAfter exampleEnv [Entered 1, Entered 2]) =
     IncludedFiles (consumerAfter exampleEnv [Entered 1]) @
       [(IncludeFileNode ''/real/a.h'' (Blob ''content of a.h''), 100),
        (IncludeFileNode ''a.h'' (Blob ''content of a.h''), 100)]
   \<and> ObjectForFile (consumerAfter exampleEnv [Entered 1, Entered 2, Exited 1 2 1120]) aFE =
     Some (IncludeFileNode ''a.h'' (Blob ''content of a.h''))
   \<and> IncludedFiles (consumerAfter exampleEnv [Entered 1, Entered 2, Exited 1 2 1120, Entered 5]) =
     IncludedFiles (consumerAfter exampleEnv [Entered 1, Entered 2])"
proof -
  let ?S = "consumerAfter exampleEnv [Entered 1]"
  let ?S1 = "consumerAfter exampleEnv [Entered 1, Entered 2]"
  let ?S2 = "consumerAfter exampleEnv [Entered 1, Entered 2, Exited 1 2 1120]"
  let ?A = "IncludeFileNode ''a.h'' (Blob ''content of a.h'')"
  have h1: "getPredefinesFileID exampleEnv \<noteq> 2" "getPredefinesFileID exampleEnv \<noteq> 5"
    by (simp_all add: exampleEnv_def)
  have h3: "OrigEntry (getSLocEntry_getFile exampleEnv 2) = Some aFE"
    "OrigEntry (getSLocEntry_getFile exampleEnv 5) = Some aFE"
    by (simp_all add: exampleEnv_def exampleFileInfo_def)
  have h5: "handleEvent exampleEnv ?S (Entered 2) = Done ?S1"
    by (simp add: example_defs)
  have h6: "ErrorToReport ?S1 = None"
    by (simp add: example_defs)
  have h7: "handleEvents exampleEnv ?S1 [Exited 1 2 1120] = Done ?S2"
    by (simp add: example_defs)
  have top: "File (last (IncludeStack ?S1)) = ?A"
    by (simp add: example_defs)
  have new: "ObjectForFile ?S aFE = None"
    by (simp add: example_defs)
  have u: "getPredefinesFileID unreadableEnv \<noteq> 5"
    "OrigEntry (getSLocEntry_getFile unreadableEnv 5) = Some aFE"
    by (simp_all add: unreadableEnv_def exampleEnv_def exampleFileInfo_def)
  note c7 = C7_repeated_inclusion_is_cached[OF h1 h3 h5 h6 h7]
  have c7a: "IncludedFiles ?S1 = IncludedFiles ?S @ fileListEntries exampleEnv aFE"
    using c7 new by blast
  have c7b: "ObjectForFile ?S2 aFE = Some (File (last (IncludeStack ?S1)))"
    using c7 by blast
  have c7c: "\<forall>env'. getPredefinesFileID env' \<noteq> 5 \<and>
              OrigEntry (getSLocEntry_getFile env' 5) = Some aFE \<longrightarrow>
              getObjectForFile env' ?S2 5 = Done (?S2, Inr (File (last (IncludeStack ?S1))))"
    using c7 by blast
  have c7d: "getObjectForFile exampleEnv ?S2 5 = Done (?S2, Inr (File (last (IncludeStack ?S1))))"
    using c7 by blast
  have c7e: "ErrorToReport ?S2 = None \<longrightarrow>
         handleEvent exampleEnv ?S2 (Entered 5) =
           Done (?S2\<lparr>IncludeStack := IncludeStack ?S2 @
              [\<lparr> FileCharacteristic = getFileCharacteristic (getSLocEntry_getFile exampleEnv 5),
                 File = File (last (IncludeStack ?S1)), Includes = [],
                 HasIncludeChecks = [] \<rparr>]\<rparr>)"
    using c7 by blast
  have down: "getObjectForFile unreadableEnv ?S2 5 =
                Done (?S2, Inr (File (last (IncludeStack ?S1))))"
    using c7c u by blast
  have entries: "fileListEntries exampleEnv aFE =
       [(IncludeFileNode ''/real/a.h'' (Blob ''content of a.h''), 100), (?A, 100)]"
    by (simp add: fileListEntries_def hasOtherPath_def exampleEnv_def aFE_def)
  have added: "IncludedFiles ?S1 = IncludedFiles ?S @
       [(IncludeFileNode ''/real/a.h'' (Blob ''content of a.h''), 100), (?A, 100)]"
    using c7a entries by simp
  have e2: "ErrorToReport ?S2 = None"
    by (simp add: example_defs)
  have after: "handleEvents exampleEnv newConsumer [Entered 1, Entered 2, Exited 1 2 1120] = Done ?S2"
    by (simp add: example_defs)
  have same: "IncludedFiles ?S2 = IncludedFiles ?S1"
    by (simp add: example_defs)
  have "handleEvents exampleEnv newConsumer ([Entered 1, Entered 2, Exited 1 2 1120] @ [Entered 5])
          = handleEvent exampleEnv ?S2 (Entered 5)"
    unfolding handleEvents_append after by (simp split: outcome.splits)
  then have "IncludedFiles (consumerAfter exampleEnv [Entered 1, Entered 2, Exited 1 2 1120, Entered 5])
          = IncludedFiles ?S2"
    using c7e e2 by (simp add: consumerAfter_def)
  then show ?thesis using c7b c7d top down added same by simp
qed

text \<open>
  C10.  An \<open>Entered\<close> event for the predefines buffer changes neither the file list nor
  the seen bits nor the cache of files.  When it records no error, the reference of its
  frame is the one in \<open>PredefinesBufferRef\<close>: the file node the store made of the
  buffer if no reference was there before the event, and the reference that was there
  otherwise.  It stays there whatever events follow, and every later resolution of the
  buffer returns it and leaves the consumer as it is, whatever the store would answer then
  (\<open>env'\<close>): the buffer is stored once.  When the event records an error, the events
  that follow change nothing, so the buffer is not stored again.  In every scan, also
  after \<open>finalize\<close>, each entry of the file list is the entry of a file entry: a node
  of its name or of its real path and of the file manager's reference to its content.
\<close>

theorem C10_predefines_memoized_and_not_listed:
  assumes "getPredefinesFileID env = FID"
    and "handleEvent env S (Entered FID) = Done S1"
  shows "IncludedFiles S1 = IncludedFiles S \<and> SeenIncludeFiles S1 = SeenIncludeFiles S \<and>
         ObjectForFile S1 = ObjectForFile S
       \<and> (\<forall>Es S2. ErrorToReport S1 = None \<and> handleEvents env S1 Es = Done S2 \<longrightarrow>
            getObjectForFile env S2 FID = Done (S2, Inr (File (last (IncludeStack S1)))) \<and>
            PredefinesBufferRef S1 = Some (File (last (IncludeStack S1))) \<and>
            PredefinesBufferRef S2 = Some (File (last (IncludeStack S1))) \<and>
            (PredefinesBufferRef S = None \<longrightarrow>
               bufferFileNode env (getSLocEntry_getFile env FID)
                 = Some (File (last (IncludeStack S1)))) \<and>
            (PredefinesBufferRef S \<noteq> None \<longrightarrow>
               PredefinesBufferRef S = Some (File (last (IncludeStack S1)))) \<and>
            (\<forall>env'. getPredefinesFileID env' = FID \<longrightarrow>
               getObjectForFile env' S2 FID = Done (S2, Inr (File (last (IncludeStack S1))))))
       \<and> (\<forall>Es. ErrorToReport S1 \<noteq> None \<longrightarrow> handleEvents env S1 Es = Done S1)
       \<and> (\<forall>Es S2. handleEvents env newConsumer Es = Done S2 \<longrightarrow>
            fileListFromDisk env S2 \<and>
            (\<forall>CI S3. finalize env CI S2 = Done S3 \<longrightarrow> fileListFromDisk env S3))"
proof -
  have en: "enteredInclude env S FID = Done S1" using assms(2) by simp
  have same: "IncludedFiles S1 = IncludedFiles S \<and> SeenIncludeFiles S1 = SeenIncludeFiles S \<and>
         ObjectForFile S1 = ObjectForFile S"
  proof (cases "hasErrorOccurred S")
    case True
    then show ?thesis using en by (simp add: enteredInclude_def)
  next
    case False
    then obtain S0 R where g: "getObjectForFile env S FID = Done (S0, R)"
      using en by (auto simp: enteredInclude_def split: outcome.splits)
    show ?thesis
      using en False g getObjectForFile_predefines_same[OF assms(1) g]
      by (cases R) (auto simp: enteredInclude_def)
  qed
  have memo: "getObjectForFile env S2 FID = Done (S2, Inr (File (last (IncludeStack S1)))) \<and>
            PredefinesBufferRef S1 = Some (File (last (IncludeStack S1))) \<and>
            PredefinesBufferRef S2 = Some (File (last (IncludeStack S1))) \<and>
            (PredefinesBufferRef S = None \<longrightarrow>
               bufferFileNode env (getSLocEntry_getFile env FID)
                 = Some (File (last (IncludeStack S1)))) \<and>
            (PredefinesBufferRef S \<noteq> None \<longrightarrow>
               PredefinesBufferRef S = Some (File (last (IncludeStack S1)))) \<and>
            (\<forall>env'. getPredefinesFileID env' = FID \<longrightarrow>
               getObjectForFile env' S2 FID = Done (S2, Inr (File (last (IncludeStack S1)))))"
    if e1: "ErrorToReport S1 = None" and run: "handleEvents env S1 Es = Done S2" for Es S2
  proof -
    from enteredInclude_ok[OF en e1] obtain S0 FileRef where
      g: "getObjectForFile env S FID = Done (S0, Inr FileRef)"
      and s1: "S1 = S0\<lparr>IncludeStack := IncludeStack S @
                [\<lparr> FileCharacteristic = getFileCharacteristic (getSLocEntry_getFile env FID),
                   File = FileRef, Includes = [], HasIncludeChecks = [] \<rparr>]\<rparr>"
      by blast
    have top: "File (last (IncludeStack S1)) = FileRef" using s1 by simp
    have "PredefinesBufferRef S0 = Some FileRef"
      by (rule getObjectForFile_memoizes_result[OF assms(1) g])
    then have m1: "PredefinesBufferRef S1 = Some FileRef" using s1 by simp
    then have m2: "PredefinesBufferRef S2 = Some FileRef"
      using keeps_handleEvents[OF run] by (simp add: keeps_def)
    have any: "getObjectForFile env' S2 FID = Done (S2, Inr FileRef)"
      if "getPredefinesFileID env' = FID" for env' :: "'a env"
      by (rule getObjectForFile_memoized[OF that m2])
    have first: "bufferFileNode env (getSLocEntry_getFile env FID) = Some FileRef"
      if "PredefinesBufferRef S = None"
      by (rule getObjectForFile_first_request[OF assms(1) that g])
    have again: "PredefinesBufferRef S = Some FileRef" if ne: "PredefinesBufferRef S \<noteq> None"
    proof -
      obtain Ref0 where c: "PredefinesBufferRef S = Some Ref0" using ne by blast
      have "getObjectForFile env S FID = Done (S, Inr Ref0)"
        by (rule getObjectForFile_memoized[OF assms(1) c])
      then show ?thesis using g c by simp
    qed
    show ?thesis
      using any[OF assms(1)] any m1 m2 first again unfolding top by simp
  qed
  have failed: "handleEvents env S1 Es = Done S1" if ne: "ErrorToReport S1 \<noteq> None" for Es
  proof -
    obtain E where "ErrorToReport S1 = Some E" using ne by blast
    then show ?thesis by (rule handleEvents_after_error)
  qed
  have disk: "fileListFromDisk env S2 \<and>
      (\<forall>CI S3. finalize env CI S2 = Done S3 \<longrightarrow> fileListFromDisk env S3)"
    if run: "handleEvents env newConsumer Es = Done S2" for Es S2
  proof -
    have d2: "fileListFromDisk env S2"
      using keeps_handleEvents[OF run] fileListFromDisk_newConsumer[of env]
      by (simp add: keeps_def)
    then show ?thesis
      using finalize_extends fileListFromDisk_extends by blast
  qed
  show ?thesis using same memo failed disk by blast
qed

text \<open>
  The predefines buffer is entered in the main file, left, and resolved again: the
  reference is the memoized one, also when nothing can be stored any more, and the file
  list holds the main file only.
\<close>

theorem C10_predefines_memoized_and_not_listed_witness:
  "getObjectForFile exampleEnv (consumerAfter exampleEnv [Entered 1, Entered 0, Exited 1 0 1000]) 0 =
     Done (consumerAfter exampleEnv [Entered 1, Entered 0, Exited 1 0 1000],
           Inr (IncludeFileNode ''<built-in>'' (Blob ''#define __STDC__ 1'')))
   \<and> getObjectForFile unreadableEnv (consumerAfter exampleEnv [Entered 1, Entered 0, Exited 1 0 1000]) 0 =
     Done (consumerAfter exampleEnv [Entered 1, Entered 0, Exited 1 0 1000],
           Inr (IncludeFileNode ''<built-in>'' (Blob ''#define __STDC__ 1'')))
   \<and> PredefinesBufferRef (consumerAfter exampleEnv [Entered 1, Entered 0, Exited 1 0 1000]) =
     Some (IncludeFileNode ''<built-in>'' (Blob ''#define __STDC__ 1''))
   \<and> IncludedFiles (consumerAfter exampleEnv [Entered 1, Entered 0]) =
       [(IncludeFileNode ''main.c'' (Blob ''content of main.c''), 300)]
   \<and> fileListFromDisk exampleEnv (consumerAfter exampleEnv [Entered 1, Entered 0, Exited 1 0 1000])"
proof -
  let ?S = "consumerAfter exampleEnv [Entered 1]"
  let ?S1 = "consumerAfter exampleEnv [Entered 1, Entered 0]"
  let ?S2 = "consumerAfter exampleEnv [Entered 1, Entered 0, Exited 1 0 1000]"
  let ?B = "IncludeFileNode ''<built-in>'' (Blob ''#define __STDC__ 1'')"
  have h1: "getPredefinesFileID exampleEnv = 0" by (simp add: exampleEnv_def)
  have h2: "handleEvent exampleEnv ?S (Entered 0) = Done ?S1"
    by (simp add: example_defs)
  note c10 = C10_predefines_memoized_and_not_listed[OF h1 h2]
  have e1: "ErrorToReport ?S1 = None"
    by (simp add: example_defs)
  have run: "handleEvents exampleEnv ?S1 [Exited 1 0 1000] = Done ?S2"
    by (simp add: example_defs)
  have scan: "handleEvents exampleEnv newConsumer [Entered 1, Entered 0, Exited 1 0 1000] = Done ?S2"
    by (simp add: example_defs)
  have top: "File (last (IncludeStack ?S1)) = ?B"
    by (simp add: example_defs)
  have files: "IncludedFiles ?S = [(IncludeFileNode ''main.c'' (Blob ''content of main.c''), 300)]"
    by (simp add: example_defs)
  have u: "getPredefinesFileID unreadableEnv = 0"
    by (simp add: unreadableEnv_def exampleEnv_def)
  have disk: "fileListFromDisk exampleEnv ?S2"
    using c10 scan by blast
  have memo: "getObjectForFile exampleEnv ?S2 0 = Done (?S2, Inr (File (last (IncludeStack ?S1))))"
    "PredefinesBufferRef ?S2 = Some (File (last (IncludeStack ?S1)))"
    "\<forall>env'. getPredefinesFileID env' = 0 \<longrightarrow>
        getObjectForFile env' ?S2 0 = Done (?S2, Inr (File (last (IncludeStack ?S1))))"
    using c10 e1 run by blast+
  have down: "getObjectForFile unreadableEnv ?S2 0 = Done (?S2, Inr (File (last (IncludeStack ?S1))))"
    using memo(3) u by blast
  have "IncludedFiles ?S1 = IncludedFiles ?S"
    using c10 by blast
  then show ?thesis using disk memo(1,2) down files top by simp
qed


section \<open>Invalid call sequences\<close>

text \<open>
  C8, as the code has it.  While no error is recorded: an exit whose included file does
  not resolve to the file of the top frame fails an assertion; so does, once the top frame
  has been removed and made a node, an exit whose including file does not resolve to the
  file of the frame below; so do a probe and an exit with no open frame; and so does
  \<open>getIncludeTree\<close> unless exactly one frame is open.
\<close>

theorem C8_invalid_sequences_fail_assertions:
  assumes "ErrorToReport S = None"
  shows "((\<forall>S1 Ref. getObjectForFile env S Incl = Done (S1, Inr Ref) \<longrightarrow>
             IncludeStack S = [] \<or> File (last (IncludeStack S)) \<noteq> Ref) \<longrightarrow>
          exitedInclude env S IncludedBy Incl ExitLoc = AssertionFailure)
       \<and> (\<forall>S1 Tree.
            IncludeStack S \<noteq> [] \<and>
            getObjectForFile env S Incl = Done (S1, Inr (File (last (IncludeStack S)))) \<and>
            getCASTreeForFileIncludes env (last (IncludeStack S)) = Inr Tree \<and>
            (\<forall>S3 Ref. getObjectForFile env (S1\<lparr>IncludeStack := butlast (IncludeStack S)\<rparr>)
                         IncludedBy = Done (S3, Inr Ref) \<longrightarrow>
               butlast (IncludeStack S) = [] \<or> File (last (butlast (IncludeStack S))) \<noteq> Ref) \<longrightarrow>
            exitedInclude env S IncludedBy Incl ExitLoc = AssertionFailure)
       \<and> (IncludeStack S = [] \<longrightarrow>
            handleHasIncludeCheck S Result = AssertionFailure \<and>
            exitedInclude env S IncludedBy Incl ExitLoc = AssertionFailure)
       \<and> (length (IncludeStack S) \<noteq> 1 \<longrightarrow> getIncludeTree env S = AssertionFailure)"
proof -
  have n: "\<not> hasErrorOccurred S" using assms by (simp add: hasErrorOccurred_def)
  have child: "exitedInclude env S IncludedBy Incl ExitLoc = AssertionFailure"
    if "\<forall>S1 Ref. getObjectForFile env S Incl = Done (S1, Inr Ref) \<longrightarrow>
             IncludeStack S = [] \<or> File (last (IncludeStack S)) \<noteq> Ref"
  proof -
    have "assertTopIs env S Incl = AssertionFailure"
      by (rule assertTopIs_fails) (use that in blast)
    then show ?thesis using n by (simp add: exitedInclude_def)
  qed
  have parent: "exitedInclude env S IncludedBy Incl ExitLoc = AssertionFailure"
    if ne: "IncludeStack S \<noteq> []"
      and g: "getObjectForFile env S Incl = Done (S1, Inr (File (last (IncludeStack S))))"
      and t: "getCASTreeForFileIncludes env (last (IncludeStack S)) = Inr Tree"
      and m: "\<forall>S3 Ref. getObjectForFile env (S1\<lparr>IncludeStack := butlast (IncludeStack S)\<rparr>)
                         IncludedBy = Done (S3, Inr Ref) \<longrightarrow>
               butlast (IncludeStack S) = [] \<or> File (last (butlast (IncludeStack S))) \<noteq> Ref"
    for S1 Tree
  proof -
    have st1: "IncludeStack S1 = IncludeStack S"
      by (rule getObjectForFile_same(1)[OF g])
    have a1: "assertTopIs env S Incl = Done S1"
      using g ne st1 by (simp add: assertTopIs_def)
    have "assertTopIs env (S1\<lparr>IncludeStack := butlast (IncludeStack S)\<rparr>) IncludedBy
            = AssertionFailure"
      by (rule assertTopIs_fails) (use m in simp)
    then show ?thesis
      using n a1 t st1 by (simp add: exitedInclude_def Let_def)
  qed
  have empty: "handleHasIncludeCheck S Result = AssertionFailure \<and>
            exitedInclude env S IncludedBy Incl ExitLoc = AssertionFailure"
    if "IncludeStack S = []"
    using that n child by (simp add: handleHasIncludeCheck_def)
  have final: "getIncludeTree env S = AssertionFailure" if "length (IncludeStack S) \<noteq> 1"
    using that assms by (simp add: getIncludeTree_def)
  show ?thesis using child parent empty final by blast
qed

text \<open>
  With the main file and \<^verbatim>\<open>a.h\<close> open and no error: an exit of \<^verbatim>\<open>b.h\<close> fails
  (the top frame is the one of \<^verbatim>\<open>a.h\<close>), an exit of \<^verbatim>\<open>a.h\<close> into \<^verbatim>\<open>b.h\<close>
  fails (the frame below is the one of the main file), and so does \<open>getIncludeTree\<close>;
  a probe for a new consumer fails.
\<close>

theorem C8_invalid_sequences_fail_assertions_witness:
  "exitedInclude exampleEnv (consumerAfter exampleEnv [Entered 1, Entered 2]) 1 3 1120
     = AssertionFailure
   \<and> exitedInclude exampleEnv (consumerAfter exampleEnv [Entered 1, Entered 2]) 3 2 1120
     = AssertionFailure
   \<and> getIncludeTree exampleEnv (consumerAfter exampleEnv [Entered 1, Entered 2])
     = AssertionFailure
   \<and> handleHasIncludeCheck (newConsumer :: CASObject IncludeTreePPConsumer) True
     = AssertionFailure"
proof -
  let ?S = "consumerAfter exampleEnv [Entered 1, Entered 2]"
  let ?N = "newConsumer :: CASObject IncludeTreePPConsumer"
  have e: "ErrorToReport ?S = None" by (simp add: example_defs)
  have st: "IncludeStack ?S =
      [\<lparr> FileCharacteristic = C_User,
         File = IncludeFileNode ''main.c'' (Blob ''content of main.c''),
         Includes = [], HasIncludeChecks = [] \<rparr>,
       \<lparr> FileCharacteristic = C_System,
         File = IncludeFileNode ''a.h'' (Blob ''content of a.h''),
         Includes = [], HasIncludeChecks = [] \<rparr>]"
    by (simp add: example_defs)
  define Sb where "Sb = (case getObjectForFile exampleEnv ?S 3 of Done (T, R) \<Rightarrow> T
                          | AssertionFailure \<Rightarrow> ?S)"
  have b: "getObjectForFile exampleEnv ?S 3 =
             Done (Sb, Inr (IncludeFileNode ''b.h'' (Blob ''content of b.h'')))"
    unfolding Sb_def by (simp add: example_defs)
  have a: "getObjectForFile exampleEnv ?S 2 =
             Done (?S, Inr (IncludeFileNode ''a.h'' (Blob ''content of a.h'')))"
    by (simp add: example_defs)
  note c8 = C8_invalid_sequences_fail_assertions[OF e, of exampleEnv]
  have child: "exitedInclude exampleEnv ?S 1 3 1120 = AssertionFailure"
  proof -
    have "\<forall>S1 Ref. getObjectForFile exampleEnv ?S 3 = Done (S1, Inr Ref) \<longrightarrow>
             IncludeStack ?S = [] \<or> File (last (IncludeStack ?S)) \<noteq> Ref"
      unfolding b st by simp
    then show ?thesis using c8[of 3 1 1120] by blast
  qed
  have parent: "exitedInclude exampleEnv ?S 3 2 1120 = AssertionFailure"
  proof -
    define Sp where "Sp = (case getObjectForFile exampleEnv
                 (?S\<lparr>IncludeStack := butlast (IncludeStack ?S)\<rparr>) 3 of Done (T, R) \<Rightarrow> T
                          | AssertionFailure \<Rightarrow> ?S)"
    have p: "getObjectForFile exampleEnv (?S\<lparr>IncludeStack := butlast (IncludeStack ?S)\<rparr>) 3 =
             Done (Sp, Inr (IncludeFileNode ''b.h'' (Blob ''content of b.h'')))"
      unfolding Sp_def by (simp add: example_defs)
    have 1: "IncludeStack ?S \<noteq> []" unfolding st by simp
    have 2: "getObjectForFile exampleEnv ?S 2 = Done (?S, Inr (File (last (IncludeStack ?S))))"
      unfolding a st by simp
    have 3: "getCASTreeForFileIncludes exampleEnv (last (IncludeStack ?S)) =
               Inr (IncludeTreeNode C_System (IncludeFileNode ''a.h'' (Blob ''content of a.h'')) [] [])"
      unfolding st by (simp add: getCASTreeForFileIncludes_def exampleEnv_def)
    have 4: "\<forall>S3 Ref. getObjectForFile exampleEnv (?S\<lparr>IncludeStack := butlast (IncludeStack ?S)\<rparr>)
                         3 = Done (S3, Inr Ref) \<longrightarrow>
               butlast (IncludeStack ?S) = [] \<or> File (last (butlast (IncludeStack ?S))) \<noteq> Ref"
      unfolding p unfolding st by simp
    show ?thesis using c8[of 2 3 1120] 1 2 3 4 by blast
  qed
  have final: "getIncludeTree exampleEnv ?S = AssertionFailure"
    using c8 st by simp
  have e0: "ErrorToReport ?N = None" "IncludeStack ?N = []"
    by (simp_all add: newConsumer_def)
  have probe: "handleHasIncludeCheck ?N True = AssertionFailure"
    using C8_invalid_sequences_fail_assertions[OF e0(1), of exampleEnv] e0(2) by blast
  show ?thesis using child parent final probe by simp
qed

text \<open>
  Without the condition that no error is recorded, the statement fails: after \<^verbatim>\<open>gone.h\<close> could not
  be resolved inside \<^verbatim>\<open>a.h\<close>, two frames are open, an exit of \<^verbatim>\<open>b.h\<close> (not the
  top frame) and a probe are accepted without effect, and \<open>getIncludeTree\<close> returns the
  recorded error.  And an exit of \<^verbatim>\<open>a.h\<close> into \<^verbatim>\<open>b.h\<close> (not the frame below),
  with a store that cannot create the node of \<^verbatim>\<open>a.h\<close>, records that error before the
  including file is looked at.
\<close>

theorem C8_invalid_sequences_counterexample:
  "length (IncludeStack (consumerAfter exampleEnv [Entered 1, Entered 2, Entered 4])) = 2
   \<and> getIncludeTree exampleEnv (consumerAfter exampleEnv [Entered 1, Entered 2, Entered 4]) =
       Done (consumerAfter exampleEnv [Entered 1, Entered 2, Entered 4], Inl (errorCodeToError 2))
   \<and> exitedInclude exampleEnv (consumerAfter exampleEnv [Entered 1, Entered 2, Entered 4]) 1 3 1120 =
       Done (consumerAfter exampleEnv [Entered 1, Entered 2, Entered 4])
   \<and> ErrorToReport (consumerAfter failingStoreEnv [Entered 1, Entered 2]) = None
   \<and> map_outcome ErrorToReport
       (exitedInclude failingStoreEnv (consumerAfter failingStoreEnv [Entered 1, Entered 2]) 3 2 1120) =
       Done (Some (StoreError ''cannot store''))"
  by (simp add: example_defs)


end
